theory Spec2Isabelle
  imports Complex_Main
begin

section \<open>Numbers, constants and small helpers\<close>

text \<open>
  The program is \<^verbatim>\<open>src/src/ts/thread-computer.ts\<close>. A JavaScript number is a double (IEEE 754
  binary64) and is modelled as the \<^typ>\<open>real\<close> it denotes. The size of the hidden canvas
  (\<^verbatim>\<open>computeBestSize\<close>) and the rectangle layout of \<^verbatim>\<open>computePegs\<close> are modelled with the
  rounding of the code: each quotient and each product is rounded to the nearest double by
  \<open>fl\<close>, defined below. The circle layout, the sampling and the scoring are modelled in exact
  real arithmetic, with \<^term>\<open>pi\<close> for \<^verbatim>\<open>Math.PI\<close> and the real \<^term>\<open>cos\<close>, \<^term>\<open>sin\<close> and
  \<^term>\<open>sqrt\<close> for \<^verbatim>\<open>Math.cos\<close>, \<^verbatim>\<open>Math.sin\<close> and \<^verbatim>\<open>Math.sqrt\<close>: no rounding is modelled there,
  so the counts, angles, positions and scores of the code can differ from these in their last
  digits, and a sample count or a peg count by one. Where the code can produce \<^verbatim>\<open>NaN\<close> (a
  division \<^verbatim>\<open>0 / 0\<close>, a read outside a typed array) the value is a \<^typ>\<open>real option\<close> and \<^verbatim>\<open>NaN\<close>
  is \<^term>\<open>None\<close>; where a loop bound can be \<^verbatim>\<open>Infinity\<close> the function returns \<^term>\<open>None\<close> for
  "never returns". Lists have no maximal length and memory is not bounded.
\<close>

definition MIN_SAFE_NUMBER :: real where
  "MIN_SAFE_NUMBER = - 9007199254740991"

definition HIDDEN_CANVAS_SIZE :: real where
  "HIDDEN_CANVAS_SIZE = 256"

definition TWO_PI :: real where
  "TWO_PI = 2 * pi"

definition LINE_OPACITY :: real where
  "LINE_OPACITY = 0.512 / 8"

definition clamp :: "'a::linorder \<Rightarrow> 'a \<Rightarrow> 'a \<Rightarrow> 'a" where
  "clamp v mn mx = (if v < mn then mn else if v > mx then mx else v)"

definition mix :: "real \<Rightarrow> real \<Rightarrow> real \<Rightarrow> real" where
  "mix a b t = a * (1 - t) + b * t"

text \<open>
  \<^verbatim>\<open>randomItem\<close>: the result of \<^verbatim>\<open>Math.random()\<close> is the argument \<open>r\<close>. The empty list gives
  \<^verbatim>\<open>null\<close>; an index outside the list (only when \<open>r\<close> is outside \<open>[0, 1)\<close>) gives
  \<^verbatim>\<open>undefined\<close>. Both are \<^term>\<open>None\<close>.
\<close>

definition randomItem :: "real \<Rightarrow> 'a list \<Rightarrow> 'a option" where
  "randomItem r list =
     (if length list = 0 then None
      else (let randomIndex = \<lfloor>r * real (length list)\<rfloor>
            in if 0 \<le> randomIndex \<and> randomIndex < int (length list)
               then Some (list ! nat randomIndex) else None))"

text \<open>The remainder \<^verbatim>\<open>v % 1\<close> of JavaScript: it has the sign of \<open>v\<close>.\<close>

definition rem1 :: "real \<Rightarrow> real" where
  "rem1 v = v - of_int (if 0 \<le> v then \<lfloor>v\<rfloor> else \<lceil>v\<rceil>)"

text \<open>
  Rounding to the nearest double, a tie going to the even significand. \<open>binade x\<close> is the
  exponent \<open>e\<close> with \<open>2^e \<le> |x| < 2^(e+1)\<close>; \<open>quantum x\<close> is the distance between neighbouring
  doubles there, \<open>2^(e-52)\<close>, and \<open>2^(-1074)\<close> for the subnormal numbers below \<open>2^(-1022)\<close>;
  \<open>fl x\<close> is the multiple of \<open>quantum x\<close> nearest to \<open>x\<close>. The exponent has no upper bound
  here: a result \<open>fl x \<ge> 2^1024\<close> stands for the \<^verbatim>\<open>Infinity\<close> that the code computes.
\<close>

definition roundHalfEven :: "real \<Rightarrow> int" where
  "roundHalfEven v =
     (let f = \<lfloor>v\<rfloor>; frac = v - of_int f
      in if frac < 1 / 2 then f else if 1 / 2 < frac then f + 1
         else if even f then f else f + 1)"

definition binade :: "real \<Rightarrow> int" where
  "binade x = \<lfloor>log 2 \<bar>x\<bar>\<rfloor>"

definition quantum :: "real \<Rightarrow> real" where
  "quantum x = 2 powr real_of_int (max (binade x) (- 1022) - 52)"

definition fl :: "real \<Rightarrow> real" where
  "fl x = (if x = 0 then 0 else real_of_int (roundHalfEven (x / quantum x)) * quantum x)"

section \<open>Pegs and shapes\<close>

text \<open>
  \<^verbatim>\<open>IPeg\<close> with the field \<^verbatim>\<open>angle\<close> of \<^verbatim>\<open>IPegCircle\<close>: a rectangle peg has no angle
  (\<^verbatim>\<open>undefined\<close>), a circle peg has one.
\<close>

record peg =
  peg_x :: real
  peg_y :: real
  peg_angle :: "real option"

text \<open>
  Modelled from the spec: the enum \<^verbatim>\<open>EShape\<close> is declared in \<^verbatim>\<open>parameters.ts\<close>, which is not
  among the sources; the spec names its two values. The code tests for \<^verbatim>\<open>RECTANGLE\<close> and
  treats every other shape as the circle.
\<close>

datatype EShape = RECTANGLE | CIRCLE

text \<open>The two closures that \<^verbatim>\<open>computePegs\<close> stores in \<^verbatim>\<open>arePegsTooClose\<close>.\<close>

definition rectangleTooClose :: "peg \<Rightarrow> peg \<Rightarrow> bool" where
  "rectangleTooClose peg1 peg2 \<longleftrightarrow> peg_x peg1 = peg_x peg2 \<or> peg_y peg1 = peg_y peg2"

text \<open>
  A missing angle makes the difference \<^verbatim>\<open>NaN\<close>, and \<^verbatim>\<open>NaN <= TWO_PI / 16\<close> is false.
\<close>

definition circleTooClose :: "peg \<Rightarrow> peg \<Rightarrow> bool" where
  "circleTooClose peg1 peg2 =
     (case (peg_angle peg1, peg_angle peg2) of
        (Some a1, Some a2) \<Rightarrow>
          (let absDeltaAngle = \<bar>a1 - a2\<bar>;
               minAngle = min absDeltaAngle (TWO_PI - absDeltaAngle)
           in minAngle \<le> TWO_PI / 16)
      | _ \<Rightarrow> False)"

text \<open>
  \<^verbatim>\<open>Math.ceil(side / this.pegsSpacing)\<close>, the bound \<^verbatim>\<open>nbPegsPerWidth\<close> or \<^verbatim>\<open>nbPegsPerHeight\<close> of a
  \<^verbatim>\<open>for\<close> loop of the rectangle layout, for a side of the canvas (an integer): the quotient
  is rounded to a double before \<^verbatim>\<open>Math.ceil\<close> is applied. With a spacing of 0 the quotient is
  \<^verbatim>\<open>Infinity\<close> when the side is positive and \<^verbatim>\<open>NaN\<close> when it is 0 (no comparison with \<^verbatim>\<open>NaN\<close>
  holds, so the loop body never runs, as for the bound 0). The counter of the loop is a
  double that \<^verbatim>\<open>iW++\<close> leaves at \<open>2^53\<close> once it is there, so a bound above \<open>2^53\<close>,
  \<^verbatim>\<open>Infinity\<close> included, is never reached and the loop pushes pegs for ever: \<^term>\<open>None\<close>.
\<close>

definition nbPegsPerSide :: "nat \<Rightarrow> real \<Rightarrow> int option" where
  "nbPegsPerSide side spacing =
     (if spacing = 0 then (if 0 < side then None else Some 0)
      else (let quotient = fl (real side / spacing)
            in if 2 ^ 53 < quotient then None else Some \<lceil>quotient\<rceil>))"

text \<open>
  The rectangle layout of \<^verbatim>\<open>computePegs\<close> for a domain of \<open>width \<times> height\<close> pixels: the pegs
  in the order they are pushed. The \<^verbatim>\<open>for\<close> loops over \<open>iW\<close> and \<open>iH\<close> are the maps over the
  index ranges; the counter and the bound are integers of at most \<open>2^53\<close>, which are doubles,
  their quotient is rounded, and so is its product with \<open>maxX\<close> or \<open>maxY\<close>. The sides of a
  canvas are integers below \<open>2^32\<close>, so that \<open>width - 1\<close> and \<open>height - 1\<close> are exact.
\<close>

definition rectanglePegs :: "real \<Rightarrow> nat \<Rightarrow> nat \<Rightarrow> peg list option" where
  "rectanglePegs spacing width height =
     (let maxX = real_of_int (int width - 1);
          maxY = real_of_int (int height - 1);
          corners =
            [\<lparr>peg_x = 0, peg_y = 0, peg_angle = None\<rparr>,
             \<lparr>peg_x = maxX, peg_y = 0, peg_angle = None\<rparr>,
             \<lparr>peg_x = maxX, peg_y = maxY, peg_angle = None\<rparr>,
             \<lparr>peg_x = 0, peg_y = maxY, peg_angle = None\<rparr>]
      in case nbPegsPerSide width spacing of
           None \<Rightarrow> None
         | Some nbPegsPerWidth \<Rightarrow>
             (case nbPegsPerSide height spacing of
                None \<Rightarrow> None
              | Some nbPegsPerHeight \<Rightarrow>
                  Some (corners
                    @ concat (map (\<lambda>iW.
                        (let px = fl (maxX * fl (real iW / real_of_int nbPegsPerWidth))
                         in [\<lparr>peg_x = px, peg_y = 0, peg_angle = None\<rparr>,
                             \<lparr>peg_x = px, peg_y = maxY, peg_angle = None\<rparr>]))
                        [1 ..< nat nbPegsPerWidth])
                    @ concat (map (\<lambda>iH.
                        (let py = fl (maxY * fl (real iH / real_of_int nbPegsPerHeight))
                         in [\<lparr>peg_x = 0, peg_y = py, peg_angle = None\<rparr>,
                             \<lparr>peg_x = maxX, peg_y = py, peg_angle = None\<rparr>]))
                        [1 ..< nat nbPegsPerHeight]))))"

text \<open>
  The circle layout, in exact arithmetic. \<open>ceilBound a b\<close> is \<open>\<lceil>a / b\<rceil>\<close> as the bound of the
  \<^verbatim>\<open>for\<close> loop over \<open>iPeg\<close>, for \<open>a \<ge> 0\<close>: with \<open>b = 0\<close> it is \<^verbatim>\<open>Infinity\<close> when \<open>a > 0\<close> (the loop
  pushes pegs for ever: \<^term>\<open>None\<close>) and \<^verbatim>\<open>NaN\<close> when \<open>a = 0\<close> (the loop body never runs, as for
  the bound 0). The code computes the bound, the angles and the positions in doubles, from
  \<^verbatim>\<open>Math.PI\<close>, \<^verbatim>\<open>Math.cos\<close> and \<^verbatim>\<open>Math.sin\<close>; the layout here is the one these formulas give over
  the reals.
\<close>

definition ceilBound :: "real \<Rightarrow> real \<Rightarrow> int option" where
  "ceilBound a b =
     (if b = 0 then (if 0 < a then None else Some 0) else Some \<lceil>a / b\<rceil>)"

definition circlePegs :: "real \<Rightarrow> nat \<Rightarrow> nat \<Rightarrow> peg list option" where
  "circlePegs spacing width height =
     (let maxSize = max width height
      in case ceilBound (0.5 * TWO_PI * real maxSize) spacing of
           None \<Rightarrow> None
         | Some nbPegs \<Rightarrow>
             (let baseDeltaAngle = TWO_PI / real_of_int nbPegs
              in Some (map (\<lambda>iPeg.
                   (let angle = real iPeg * baseDeltaAngle
                    in \<lparr>peg_x = 0.5 * real width * (1 + cos angle),
                        peg_y = 0.5 * real height * (1 + sin angle),
                        peg_angle = Some angle\<rparr>))
                   [0 ..< nat nbPegs])))"

section \<open>The Luminance Field: the hidden canvas and its readback\<close>

record ISize =
  size_width :: nat
  size_height :: nat

text \<open>
  One byte of the \<^verbatim>\<open>Uint8ClampedArray\<close>: an index outside the array reads \<^verbatim>\<open>undefined\<close>,
  which is \<^verbatim>\<open>NaN\<close> in the arithmetic that follows.
\<close>

definition readByte :: "nat list \<Rightarrow> int \<Rightarrow> real option" where
  "readByte d i = (if 0 \<le> i \<and> i < int (length d) then Some (real (d ! nat i)) else None)"

text \<open>
  \<^verbatim>\<open>sampleCanvasPixel\<close>, \<^verbatim>\<open>sampleCanvasData\<close>: \<open>cs\<close> is \<^verbatim>\<open>this.hiddenCanvas\<close> and \<open>d\<close> is
  \<^verbatim>\<open>this.hiddenCanvasData\<close>. An \<^verbatim>\<open>IPoint\<close> is the pair of its coordinates.
\<close>

definition sampleCanvasPixel :: "ISize \<Rightarrow> nat list \<Rightarrow> int \<Rightarrow> int \<Rightarrow> real option" where
  "sampleCanvasPixel cs d pixelX pixelY =
     (let base = 4 * (pixelX + pixelY * int (size_width cs))
      in case (readByte d base, readByte d (base + 1), readByte d (base + 2)) of
           (Some r, Some g, Some b) \<Rightarrow> Some ((r + g + b) / 3)
         | _ \<Rightarrow> None)"

definition sampleCanvasData :: "ISize \<Rightarrow> nat list \<Rightarrow> real \<times> real \<Rightarrow> real option" where
  "sampleCanvasData cs d coords =
     (let w = int (size_width cs);
          h = int (size_height cs);
          minX = clamp \<lfloor>fst coords\<rfloor> 0 (w - 1);
          maxX = clamp \<lceil>fst coords\<rceil> 0 (w - 1);
          minY = clamp \<lfloor>snd coords\<rfloor> 0 (h - 1);
          maxY = clamp \<lceil>snd coords\<rceil> 0 (h - 1)
      in case (sampleCanvasPixel cs d minX minY, sampleCanvasPixel cs d maxX minY,
               sampleCanvasPixel cs d minX maxY, sampleCanvasPixel cs d maxX maxY) of
           (Some topLeft, Some topRight, Some bottomLeft, Some bottomRight) \<Rightarrow>
             (let fractX = rem1 (fst coords);
                  top = mix topLeft topRight fractX;
                  bottom = mix bottomLeft bottomRight fractX;
                  fractY = rem1 (snd coords)
              in Some (mix top bottom fractY))
         | _ \<Rightarrow> None)"

text \<open>\<^verbatim>\<open>squaredError += contribution\<close>, where either side may be \<^verbatim>\<open>NaN\<close>.\<close>

definition nanAdd :: "real option \<Rightarrow> real option \<Rightarrow> real option" where
  "nanAdd a b = (case (a, b) of (Some u, Some v) \<Rightarrow> Some (u + v) | _ \<Rightarrow> None)"

text \<open>The \<^verbatim>\<open>for\<close> loop of \<^verbatim>\<open>computeThreadPotential\<close>, from \<open>iSample\<close> on.\<close>

function sampleLoop ::
  "ISize \<Rightarrow> nat list \<Rightarrow> peg \<Rightarrow> real \<Rightarrow> real \<Rightarrow> nat \<Rightarrow> nat \<Rightarrow> real option \<Rightarrow> real option" where
  "sampleLoop cs d peg1 dX dY nbSamples iSample squaredError =
     (if iSample < nbSamples
      then (let r = (real iSample + 1) / (real nbSamples + 1);
                sample = (peg_x peg1 + dX * r, peg_y peg1 + dY * r);
                imageValue = sampleCanvasData cs d sample;
                finalValue = map_option (\<lambda>v. v + 0.5 * LINE_OPACITY * 255) imageValue;
                contribution = map_option (\<lambda>v. 127 - v) finalValue
            in sampleLoop cs d peg1 dX dY nbSamples (iSample + 1)
                 (nanAdd squaredError contribution))
      else squaredError)"
  by pat_completeness auto
termination
  by (relation "measure (\<lambda>(cs, d, peg1, dX, dY, nbSamples, iSample, squaredError).
        nbSamples - iSample)") auto

declare sampleLoop.simps [simp del]

text \<open>
  The body of \<^verbatim>\<open>computeThreadPotential\<close> after the upload, in exact arithmetic: the distance
  is the real square root and no sum, product or quotient is rounded. With no sample the
  result is \<^verbatim>\<open>0 / 0\<close>, which is \<^verbatim>\<open>NaN\<close>.
\<close>

definition threadPotential :: "ISize \<Rightarrow> nat list \<Rightarrow> peg \<Rightarrow> peg \<Rightarrow> real option" where
  "threadPotential cs d peg1 peg2 =
     (let dX = peg_x peg2 - peg_x peg1;
          dY = peg_y peg2 - peg_y peg1;
          distance = sqrt (dX * dX + dY * dY);
          nbSamples = nat \<lceil>distance\<rceil>;
          squaredError = sampleLoop cs d peg1 dX dY nbSamples 0 (Some 0)
      in if nbSamples = 0 then None
         else map_option (\<lambda>e. e / real nbSamples) squaredError)"

section \<open>The planner\<close>

text \<open>
  The object. \<open>hiddenCanvasContext\<close> holds the RGBA bytes of the hidden canvas (what
  \<^verbatim>\<open>getImageData(0, 0, width, height).data\<close> returns); \<open>hiddenCanvasData\<close> is the readback
  cache, \<^term>\<open>None\<close> for \<^verbatim>\<open>null\<close>. An entry of \<open>threadPegs\<close> is \<^term>\<open>None\<close> when the code
  pushed \<^verbatim>\<open>null\<close> or \<^verbatim>\<open>undefined\<close>.
\<close>

record ThreadComputer =
  targetNbSegments :: nat
  sourceImage :: ISize
  hiddenCanvas :: ISize
  hiddenCanvasContext :: "nat list"
  hiddenCanvasData :: "nat list option"
  pegsShape :: EShape
  pegsSpacing :: real
  pegs :: "peg list"
  threadPegs :: "peg option list"
  arePegsTooClose :: "peg \<Rightarrow> peg \<Rightarrow> bool"

text \<open>
  Modelled from the spec: \<^verbatim>\<open>Parameters\<close> is declared in \<^verbatim>\<open>parameters.ts\<close>, which is not
  among the sources. The spec gives the target segment count as a non-negative integer and
  the spacing as a number.
\<close>

record Parameters =
  P_nbLines :: nat
  P_shape :: EShape
  P_pegsSpacing :: real
  P_invertColors :: bool

text \<open>
  What the browser supplies: the successive results of \<^verbatim>\<open>performance.now()\<close> within one
  call of \<^verbatim>\<open>computeNextThreads\<close>, the result of \<^verbatim>\<open>Math.random()\<close> in its \<open>k\<close>-th planning
  step, the RGBA value of pixel \<open>i\<close> after \<^verbatim>\<open>drawImage\<close> of the source image onto a canvas of
  the given size, and the bytes of a canvas after a line has been stroked on it.
\<close>

record Browser =
  env_now :: "nat \<Rightarrow> real"
  env_random :: "nat \<Rightarrow> real"
  env_drawImage :: "ISize \<Rightarrow> nat \<Rightarrow> nat \<times> nat \<times> nat \<times> nat"
  env_stroke :: "ISize \<Rightarrow> nat list \<Rightarrow> peg \<Rightarrow> peg \<Rightarrow> nat list"

text \<open>
  How a method ends: it returns a value and leaves the object in a state, it throws a
  \<^verbatim>\<open>TypeError\<close> (a property of \<^verbatim>\<open>null\<close> was read) and leaves the object in a state, or it
  never returns.
\<close>

datatype 'a outcome = Returns 'a ThreadComputer | TypeError ThreadComputer | Hangs

definition nbSegments :: "ThreadComputer \<Rightarrow> nat" where
  "nbSegments s = (if length (threadPegs s) > 1 then length (threadPegs s) - 1 else 0)"

definition nbPegs :: "ThreadComputer \<Rightarrow> nat" where
  "nbPegs s = length (pegs s)"

text \<open>
  \<^verbatim>\<open>computeBestSize\<close>, with the rounding of the code: the factor is a rounded quotient and
  each side the ceiling of a rounded product. The sides of an image are integers. For an
  image of 0 by 0 pixels the factor is \<^verbatim>\<open>maxSize / 0 = Infinity\<close> and both products
  \<^verbatim>\<open>0 * Infinity\<close> are \<^verbatim>\<open>NaN\<close>; a side of the canvas that is assigned \<^verbatim>\<open>NaN\<close> is 0, and 0 is
  the side given here.
\<close>

definition computeBestSize :: "ISize \<Rightarrow> real \<Rightarrow> ISize" where
  "computeBestSize sourceImageSize maxSize =
     (let maxSourceSide = max (size_width sourceImageSize) (size_height sourceImageSize)
      in if maxSourceSide = 0 then \<lparr>size_width = 0, size_height = 0\<rparr>
         else (let sizingFactor = fl (maxSize / real maxSourceSide)
               in \<lparr>size_width = nat \<lceil>fl (real (size_width sourceImageSize) * sizingFactor)\<rceil>,
                   size_height = nat \<lceil>fl (real (size_height sourceImageSize) * sizingFactor)\<rceil>\<rparr>))"

text \<open>
  A number stored into a \<^verbatim>\<open>Uint8ClampedArray\<close>: clamped to \<open>[0, 255]\<close> and rounded to the
  nearest integer, a tie going to the even one.
\<close>

definition toUint8Clamped :: "real \<Rightarrow> nat" where
  "toUint8Clamped v =
     (if v \<le> 0 then 0 else if 255 \<le> v then 255
      else (let f = \<lfloor>v\<rfloor>; frac = v - of_int f
            in nat (if frac < 1 / 2 then f else if 1 / 2 < frac then f + 1
                    else if even f then f else f + 1)))"

definition computeAdjustedValue :: "bool \<Rightarrow> nat \<Rightarrow> nat \<Rightarrow> nat \<Rightarrow> real" where
  "computeAdjustedValue inverted r g b =
     (if inverted then 128 - (real r + real g + real b) / 3 / 2
      else (real r + real g + real b) / 3 / 2)"

definition resetHiddenCanvas :: "Parameters \<Rightarrow> Browser \<Rightarrow> ThreadComputer \<Rightarrow> ThreadComputer" where
  "resetHiddenCanvas P env s =
     (let wantedSize = computeBestSize (sourceImage s) HIDDEN_CANVAS_SIZE;
          nbPixels = size_width wantedSize * size_height wantedSize;
          canvasData = concat (map (\<lambda>i.
            (case env_drawImage env wantedSize i of
               (r, g, b, a) \<Rightarrow>
                 (let adjustedValue = toUint8Clamped (computeAdjustedValue (P_invertColors P) r g b)
                  in [adjustedValue, adjustedValue, adjustedValue, a])))
            [0 ..< nbPixels])
      in s\<lparr>hiddenCanvas := wantedSize, hiddenCanvasContext := canvasData\<rparr>)"

text \<open>
  \<^verbatim>\<open>drawThreadOnHiddenCanvas\<close>: \<^verbatim>\<open>moveTo(peg1.x, peg1.y)\<close> and \<^verbatim>\<open>lineTo(peg2.x, peg2.y)\<close>
  throw on a \<^verbatim>\<open>null\<close> peg, before anything is stroked.
\<close>

definition drawThreadOnHiddenCanvas ::
  "Browser \<Rightarrow> ThreadComputer \<Rightarrow> peg option \<Rightarrow> peg option \<Rightarrow> unit outcome" where
  "drawThreadOnHiddenCanvas env s peg1 peg2 =
     (case (peg1, peg2) of
        (Some p1, Some p2) \<Rightarrow>
          Returns () (s\<lparr>hiddenCanvasContext :=
                          env_stroke env (hiddenCanvas s) (hiddenCanvasContext s) p1 p2,
                        hiddenCanvasData := None\<rparr>)
      | _ \<Rightarrow> TypeError s)"

definition uploadCanvasDataToCPU :: "ThreadComputer \<Rightarrow> ThreadComputer" where
  "uploadCanvasDataToCPU s =
     (case hiddenCanvasData s of
        None \<Rightarrow> s\<lparr>hiddenCanvasData := Some (hiddenCanvasContext s)\<rparr>
      | Some d \<Rightarrow> s)"

text \<open>The array that \<open>hiddenCanvasData\<close> holds once \<^verbatim>\<open>uploadCanvasDataToCPU\<close> has run.\<close>

definition cpuData :: "ThreadComputer \<Rightarrow> nat list" where
  "cpuData s = (case hiddenCanvasData s of None \<Rightarrow> hiddenCanvasContext s | Some d \<Rightarrow> d)"

text \<open>\<^verbatim>\<open>computeThreadPotential\<close>: the score, and the object with its cache filled.\<close>

definition computeThreadPotential ::
  "ThreadComputer \<Rightarrow> peg \<Rightarrow> peg \<Rightarrow> real option \<times> ThreadComputer" where
  "computeThreadPotential s peg1 peg2 =
     (threadPotential (hiddenCanvas s) (cpuData s) peg1 peg2, uploadCanvasDataToCPU s)"

text \<open>
  The update of \<open>candidates\<close> and \<open>bestScore\<close> that both searches make for a scored
  candidate. No comparison with \<^verbatim>\<open>NaN\<close> holds, so a \<^verbatim>\<open>NaN\<close> score changes nothing.
\<close>

definition keepBest :: "'a \<Rightarrow> real option \<Rightarrow> 'a list \<times> real \<Rightarrow> 'a list \<times> real" where
  "keepBest item candidateScore acc =
     (case candidateScore of
        None \<Rightarrow> acc
      | Some c \<Rightarrow>
          if c > snd acc then ([item], c)
          else if c = snd acc then (fst acc @ [item], snd acc)
          else acc)"

text \<open>The \<^verbatim>\<open>for (const peg of this.pegs)\<close> loop of \<^verbatim>\<open>computeBestNextPeg\<close>.\<close>

fun nextPegLoop ::
  "peg \<Rightarrow> peg list \<Rightarrow> (peg list \<times> real) \<times> ThreadComputer \<Rightarrow> (peg list \<times> real) \<times> ThreadComputer" where
  "nextPegLoop currentPeg [] acc = acc"
| "nextPegLoop currentPeg (p # ps) acc =
     (if \<not> arePegsTooClose (snd acc) currentPeg p
      then (case computeThreadPotential (snd acc) currentPeg p of
              (candidateScore, s') \<Rightarrow>
                nextPegLoop currentPeg ps (keepBest p candidateScore (fst acc), s'))
      else nextPegLoop currentPeg ps acc)"

text \<open>
  \<^verbatim>\<open>computeBestNextPeg\<close>. A \<^verbatim>\<open>null\<close> current peg throws in the first call of
  \<^verbatim>\<open>arePegsTooClose\<close>, which reads a property of it; with no peg at all the loop body never
  runs.
\<close>

definition computeBestNextPeg :: "real \<Rightarrow> ThreadComputer \<Rightarrow> peg option \<Rightarrow> peg option outcome" where
  "computeBestNextPeg r s currentPeg =
     (case currentPeg of
        None \<Rightarrow> (if pegs s = [] then Returns (randomItem r []) s else TypeError s)
      | Some cur \<Rightarrow>
          (case nextPegLoop cur (pegs s) (([], MIN_SAFE_NUMBER), s) of
             ((candidates, bestScore), s') \<Rightarrow> Returns (randomItem r candidates) s'))"

text \<open>
  The two nested loops of \<^verbatim>\<open>computeBestStartingThread\<close>: the inner one over the pegs after
  \<open>peg1\<close>, the outer one over the pegs. An \<^verbatim>\<open>IThread\<close> is the pair of its pegs.
\<close>

fun startInnerLoop ::
  "peg \<Rightarrow> peg list \<Rightarrow> ((peg \<times> peg) list \<times> real) \<times> ThreadComputer
     \<Rightarrow> ((peg \<times> peg) list \<times> real) \<times> ThreadComputer" where
  "startInnerLoop peg1 [] acc = acc"
| "startInnerLoop peg1 (peg2 # ps) acc =
     (if \<not> arePegsTooClose (snd acc) peg1 peg2
      then (case computeThreadPotential (snd acc) peg1 peg2 of
              (candidateScore, s') \<Rightarrow>
                startInnerLoop peg1 ps (keepBest (peg1, peg2) candidateScore (fst acc), s'))
      else startInnerLoop peg1 ps acc)"

fun startOuterLoop ::
  "peg list \<Rightarrow> ((peg \<times> peg) list \<times> real) \<times> ThreadComputer
     \<Rightarrow> ((peg \<times> peg) list \<times> real) \<times> ThreadComputer" where
  "startOuterLoop [] acc = acc"
| "startOuterLoop (peg1 # ps) acc = startOuterLoop ps (startInnerLoop peg1 ps acc)"

definition computeBestStartingThread ::
  "real \<Rightarrow> ThreadComputer \<Rightarrow> (peg \<times> peg) option \<times> ThreadComputer" where
  "computeBestStartingThread r s =
     (case startOuterLoop (pegs s) (([], MIN_SAFE_NUMBER), s) of
        ((candidates, bestScore), s') \<Rightarrow> (randomItem r candidates, s'))"

text \<open>
  \<^verbatim>\<open>computeThread\<close>, one planning step. On an empty path a \<^verbatim>\<open>null\<close> starting thread throws
  at \<^verbatim>\<open>startingThread.peg1\<close>, before anything is pushed. Otherwise the next peg is pushed
  as it is, and \<^verbatim>\<open>drawThreadOnHiddenCanvas\<close> follows.
\<close>

definition computeThread :: "Browser \<Rightarrow> real \<Rightarrow> ThreadComputer \<Rightarrow> unit outcome" where
  "computeThread env r s =
     (if length (threadPegs s) = 0
      then (case computeBestStartingThread r s of
              (None, s1) \<Rightarrow> TypeError s1
            | (Some startingThread, s1) \<Rightarrow>
                (let s2 = s1\<lparr>threadPegs := threadPegs s1 @ [Some (fst startingThread)]\<rparr>;
                     lastPeg = Some (fst startingThread);
                     nextPeg = Some (snd startingThread);
                     s3 = s2\<lparr>threadPegs := threadPegs s2 @ [nextPeg]\<rparr>
                 in drawThreadOnHiddenCanvas env s3 lastPeg nextPeg))
      else (let lastPeg = last (threadPegs s)
            in case computeBestNextPeg r s lastPeg of
                 Returns nextPeg s1 \<Rightarrow>
                   (let s3 = s1\<lparr>threadPegs := threadPegs s1 @ [nextPeg]\<rparr>
                    in drawThreadOnHiddenCanvas env s3 lastPeg nextPeg)
               | TypeError s1 \<Rightarrow> TypeError s1
               | Hangs \<Rightarrow> Hangs))"

text \<open>
  \<^verbatim>\<open>computePegs\<close>: the layout for the object's shape, spacing and canvas size, and the object
  with the shape's closure stored in \<open>arePegsTooClose\<close>. \<^term>\<open>None\<close>: it never returns.
\<close>

definition computePegs :: "ThreadComputer \<Rightarrow> (peg list \<times> ThreadComputer) option" where
  "computePegs s =
     (let domainSize = hiddenCanvas s
      in if pegsShape s = RECTANGLE
         then map_option (\<lambda>ps. (ps, s\<lparr>arePegsTooClose := rectangleTooClose\<rparr>))
                (rectanglePegs (pegsSpacing s) (size_width domainSize) (size_height domainSize))
         else map_option (\<lambda>ps. (ps, s\<lparr>arePegsTooClose := circleTooClose\<rparr>))
                (circlePegs (pegsSpacing s) (size_width domainSize) (size_height domainSize)))"

definition reset :: "Parameters \<Rightarrow> Browser \<Rightarrow> ThreadComputer \<Rightarrow> unit outcome" where
  "reset P env s =
     (let s1 = s\<lparr>targetNbSegments := P_nbLines P,
                 pegsShape := P_shape P,
                 pegsSpacing := P_pegsSpacing P\<rparr>
      in case computePegs s1 of
           None \<Rightarrow> Hangs
         | Some (ps, s2) \<Rightarrow>
             Returns () (resetHiddenCanvas P env (s2\<lparr>pegs := ps, threadPegs := []\<rparr>)))"

text \<open>
  The constructor. The canvas element is created with the default size of 300 by 150
  and no content; \<open>arePegsTooClose\<close> has no value until \<^verbatim>\<open>computePegs\<close> assigns it, which
  happens before any use.
\<close>

definition newThreadComputer ::
  "Parameters \<Rightarrow> Browser \<Rightarrow> ISize \<Rightarrow> EShape \<Rightarrow> real \<Rightarrow> unit outcome" where
  "newThreadComputer P env img pegsShape0 pegsSpacing0 =
     (let s0 = \<lparr>targetNbSegments = 0, sourceImage = img,
                hiddenCanvas = \<lparr>size_width = 300, size_height = 150\<rparr>,
                hiddenCanvasContext = [], hiddenCanvasData = None,
                pegsShape = pegsShape0, pegsSpacing = pegsSpacing0,
                pegs = [], threadPegs = [], arePegsTooClose = (\<lambda>peg1 peg2. False)\<rparr>;
          s1 = resetHiddenCanvas P env s0
      in case computePegs s1 of
           None \<Rightarrow> Hangs
         | Some (ps, s2) \<Rightarrow> Returns () (s2\<lparr>pegs := ps\<rparr>))"

section \<open>What the searches leave untouched\<close>

text \<open>
  Scoring fills the readback cache and changes nothing else of the object.
\<close>

lemma upload_eq: "uploadCanvasDataToCPU s = s\<lparr>hiddenCanvasData := Some (cpuData s)\<rparr>"
  by (simp add: uploadCanvasDataToCPU_def cpuData_def split: option.split)

lemma nextPegLoop_frame:
  "\<exists>c. snd (nextPegLoop cur ps acc) = (snd acc)\<lparr>hiddenCanvasData := c\<rparr>"
proof (induction ps arbitrary: acc)
  case Nil
  have "snd acc = (snd acc)\<lparr>hiddenCanvasData := hiddenCanvasData (snd acc)\<rparr>" by simp
  then show ?case by (metis nextPegLoop.simps(1))
next
  case (Cons p ps)
  show ?case
  proof (cases "arePegsTooClose (snd acc) cur p")
    case True
    then show ?thesis using Cons.IH [of acc] by simp
  next
    case False
    let ?acc' = "(keepBest p (threadPotential (hiddenCanvas (snd acc)) (cpuData (snd acc)) cur p) (fst acc),
                  uploadCanvasDataToCPU (snd acc))"
    obtain c where "snd (nextPegLoop cur ps ?acc') = (snd ?acc')\<lparr>hiddenCanvasData := c\<rparr>"
      using Cons.IH [of ?acc'] by blast
    then have "snd (nextPegLoop cur (p # ps) acc) = (snd acc)\<lparr>hiddenCanvasData := c\<rparr>"
      using False by (simp add: computeThreadPotential_def upload_eq)
    then show ?thesis by blast
  qed
qed

lemma startInnerLoop_frame:
  "\<exists>c. snd (startInnerLoop peg1 ps acc) = (snd acc)\<lparr>hiddenCanvasData := c\<rparr>"
proof (induction ps arbitrary: acc)
  case Nil
  have "snd acc = (snd acc)\<lparr>hiddenCanvasData := hiddenCanvasData (snd acc)\<rparr>" by simp
  then show ?case by (metis startInnerLoop.simps(1))
next
  case (Cons p ps)
  show ?case
  proof (cases "arePegsTooClose (snd acc) peg1 p")
    case True
    then show ?thesis using Cons.IH [of acc] by simp
  next
    case False
    let ?acc' = "(keepBest (peg1, p) (threadPotential (hiddenCanvas (snd acc)) (cpuData (snd acc)) peg1 p) (fst acc),
                  uploadCanvasDataToCPU (snd acc))"
    obtain c where "snd (startInnerLoop peg1 ps ?acc') = (snd ?acc')\<lparr>hiddenCanvasData := c\<rparr>"
      using Cons.IH [of ?acc'] by blast
    then have "snd (startInnerLoop peg1 (p # ps) acc) = (snd acc)\<lparr>hiddenCanvasData := c\<rparr>"
      using False by (simp add: computeThreadPotential_def upload_eq)
    then show ?thesis by blast
  qed
qed

lemma startOuterLoop_frame:
  "\<exists>c. snd (startOuterLoop ps acc) = (snd acc)\<lparr>hiddenCanvasData := c\<rparr>"
proof (induction ps arbitrary: acc)
  case Nil
  have "snd acc = (snd acc)\<lparr>hiddenCanvasData := hiddenCanvasData (snd acc)\<rparr>" by simp
  then show ?case by (metis startOuterLoop.simps(1))
next
  case (Cons p ps)
  obtain c1 where c1: "snd (startInnerLoop p ps acc) = (snd acc)\<lparr>hiddenCanvasData := c1\<rparr>"
    using startInnerLoop_frame by blast
  obtain c where "snd (startOuterLoop ps (startInnerLoop p ps acc))
      = (snd (startInnerLoop p ps acc))\<lparr>hiddenCanvasData := c\<rparr>"
    using Cons.IH by blast
  then have "snd (startOuterLoop (p # ps) acc) = (snd acc)\<lparr>hiddenCanvasData := c\<rparr>"
    by (simp add: c1)
  then show ?case by blast
qed

lemma computeBestStartingThread_frame:
  "\<exists>c. snd (computeBestStartingThread r s) = s\<lparr>hiddenCanvasData := c\<rparr>"
proof -
  obtain c where "snd (startOuterLoop (pegs s) (([], MIN_SAFE_NUMBER), s)) = s\<lparr>hiddenCanvasData := c\<rparr>"
    using startOuterLoop_frame [of "pegs s" "(([], MIN_SAFE_NUMBER), s)"] by auto
  then show ?thesis
    by (auto simp: computeBestStartingThread_def split: prod.splits)
qed

lemma computeBestNextPeg_frame:
  "computeBestNextPeg r s cur = Returns v s' \<or> computeBestNextPeg r s cur = TypeError s'
     \<Longrightarrow> \<exists>c. s' = s\<lparr>hiddenCanvasData := c\<rparr>"
proof (cases cur)
  case None
  assume "computeBestNextPeg r s cur = Returns v s' \<or> computeBestNextPeg r s cur = TypeError s'"
  then have "s' = s" using None by (auto simp: computeBestNextPeg_def split: if_splits)
  then have "s' = s\<lparr>hiddenCanvasData := hiddenCanvasData s\<rparr>" by simp
  then show ?thesis by blast
next
  case (Some p)
  assume a: "computeBestNextPeg r s cur = Returns v s' \<or> computeBestNextPeg r s cur = TypeError s'"
  obtain c where "snd (nextPegLoop p (pegs s) (([], MIN_SAFE_NUMBER), s)) = s\<lparr>hiddenCanvasData := c\<rparr>"
    using nextPegLoop_frame [of p "pegs s" "(([], MIN_SAFE_NUMBER), s)"] by auto
  then show ?thesis using a Some
    by (auto simp: computeBestNextPeg_def split: prod.splits)
qed

lemma computeBestNextPeg_not_Hangs: "computeBestNextPeg r s cur \<noteq> Hangs"
  by (auto simp: computeBestNextPeg_def split: option.splits prod.splits)

section \<open>Planning steps and the time-sliced run\<close>

lemma computeThread_first:
  assumes "threadPegs s = []" and "computeThread env r s = Returns u s'"
  shows "\<exists>p1 p2. threadPegs s' = [Some p1, Some p2]"
    and "targetNbSegments s' = targetNbSegments s"
    and "pegs s' = pegs s"
    and "\<exists>p1 p2. fst (computeBestStartingThread r s) = Some (p1, p2)
                 \<and> threadPegs s' = [Some p1, Some p2]"
proof -
  obtain c where c: "snd (computeBestStartingThread r s) = s\<lparr>hiddenCanvasData := c\<rparr>"
    using computeBestStartingThread_frame by blast
  obtain t where t: "computeBestStartingThread r s = (Some t, s\<lparr>hiddenCanvasData := c\<rparr>)"
    using assms c by (cases "computeBestStartingThread r s"; cases "fst (computeBestStartingThread r s)")
      (auto simp: computeThread_def)
  have s': "s' = s\<lparr>hiddenCanvasData := None, threadPegs := [Some (fst t), Some (snd t)],
      hiddenCanvasContext := env_stroke env (hiddenCanvas s) (hiddenCanvasContext s) (fst t) (snd t)\<rparr>"
    using assms t by (auto simp: computeThread_def drawThreadOnHiddenCanvas_def Let_def)
  show "\<exists>p1 p2. threadPegs s' = [Some p1, Some p2]" using s' by simp
  show "targetNbSegments s' = targetNbSegments s" using s' by simp
  show "pegs s' = pegs s" using s' by simp
  have "fst (computeBestStartingThread r s) = Some (fst t, snd t)" using t by simp
  then show "\<exists>p1 p2. fst (computeBestStartingThread r s) = Some (p1, p2)
                 \<and> threadPegs s' = [Some p1, Some p2]"
    using s' by auto
qed

lemma computeThread_next:
  assumes "threadPegs s \<noteq> []" and "computeThread env r s = Returns u s'"
  shows "\<exists>q. threadPegs s' = threadPegs s @ [Some q]"
    and "targetNbSegments s' = targetNbSegments s"
    and "pegs s' = pegs s"
proof -
  obtain nextPeg s1 where n: "computeBestNextPeg r s (last (threadPegs s)) = Returns nextPeg s1"
    using assms by (cases "computeBestNextPeg r s (last (threadPegs s))")
      (auto simp: computeThread_def Let_def)
  then obtain c where c: "s1 = s\<lparr>hiddenCanvasData := c\<rparr>"
    using computeBestNextPeg_frame by blast
  have d: "drawThreadOnHiddenCanvas env (s1\<lparr>threadPegs := threadPegs s1 @ [nextPeg]\<rparr>)
             (last (threadPegs s)) nextPeg = Returns u s'"
    using assms n by (simp add: computeThread_def Let_def)
  then obtain p q where pq: "last (threadPegs s) = Some p" "nextPeg = Some q"
    by (cases "last (threadPegs s)"; cases nextPeg) (auto simp: drawThreadOnHiddenCanvas_def)
  have s': "s' = s\<lparr>hiddenCanvasData := None, threadPegs := threadPegs s @ [Some q],
      hiddenCanvasContext := env_stroke env (hiddenCanvas s) (hiddenCanvasContext s) p q\<rparr>"
    using d pq c by (auto simp: drawThreadOnHiddenCanvas_def)
  show "\<exists>q. threadPegs s' = threadPegs s @ [Some q]" using s' by simp
  show "targetNbSegments s' = targetNbSegments s" using s' by simp
  show "pegs s' = pegs s" using s' by simp
qed

lemma computeThread_cache:
  assumes "computeThread env r s = Returns u s'"
  shows "hiddenCanvasData s' = None"
  using assms
  by (auto simp: computeThread_def drawThreadOnHiddenCanvas_def Let_def
      split: if_splits prod.splits option.splits outcome.splits)

lemma computeThread_nbSegments:
  assumes "computeThread env r s = Returns u s'"
  shows "nbSegments s' = nbSegments s + 1" and "targetNbSegments s' = targetNbSegments s"
proof -
  show "nbSegments s' = nbSegments s + 1"
  proof (cases "threadPegs s = []")
    case True
    then show ?thesis using computeThread_first(1) [OF True assms]
      by (auto simp: nbSegments_def)
  next
    case False
    then show ?thesis using computeThread_next(1) [OF False assms]
      by (cases "threadPegs s") (auto simp: nbSegments_def)
  qed
  show "targetNbSegments s' = targetNbSegments s"
    using computeThread_first(2) computeThread_next(2) assms by (cases "threadPegs s = []") blast+
qed

text \<open>
  The \<^verbatim>\<open>while\<close> loop of \<^verbatim>\<open>computeNextThreads\<close>, from its \<open>k\<close>-th iteration on. A planning
  step that returns adds one segment, so the loop ends whatever the clock says.
\<close>

function growLoop :: "Browser \<Rightarrow> real \<Rightarrow> real \<Rightarrow> nat \<Rightarrow> ThreadComputer \<Rightarrow> bool outcome" where
  "growLoop env maxMillisecondsTaken start k s =
     (if nbSegments s < targetNbSegments s \<and> env_now env (k + 1) - start < maxMillisecondsTaken
      then (case computeThread env (env_random env k) s of
              Returns u s' \<Rightarrow> growLoop env maxMillisecondsTaken start (k + 1) s'
            | TypeError s' \<Rightarrow> TypeError s'
            | Hangs \<Rightarrow> Hangs)
      else Returns (nbSegments s \<ge> targetNbSegments s) s)"
  by pat_completeness auto
termination
proof (relation "measure (\<lambda>(env, maxMillisecondsTaken, start, k, s).
          targetNbSegments s - nbSegments s)")
  show "wf (measure (\<lambda>(env, maxMillisecondsTaken, start, k, s).
          targetNbSegments s - nbSegments s))" by simp
next
  fix env :: Browser and maxMillisecondsTaken start :: real and k :: nat
    and s :: ThreadComputer and u :: unit and s' :: ThreadComputer
  assume a: "nbSegments s < targetNbSegments s \<and> env_now env (k + 1) - start < maxMillisecondsTaken"
    and b: "computeThread env (env_random env k) s = Returns u s'"
  show "((env, maxMillisecondsTaken, start, k + 1, s'), (env, maxMillisecondsTaken, start, k, s))
          \<in> measure (\<lambda>(env, maxMillisecondsTaken, start, k, s). targetNbSegments s - nbSegments s)"
    using a computeThread_nbSegments [OF b] by (simp del: One_nat_def) linarith
qed

declare growLoop.simps [simp del]

text \<open>
  \<^verbatim>\<open>computeNextThreads\<close>: \<open>start\<close> is the first reading of the clock; the loop above reads
  the clock once more for each test of its condition that gets past the segment count.
\<close>

definition computeNextThreads ::
  "Browser \<Rightarrow> Parameters \<Rightarrow> real \<Rightarrow> ThreadComputer \<Rightarrow> bool outcome" where
  "computeNextThreads env P maxMillisecondsTaken s =
     (let start = env_now env 0
      in case (if nbSegments s > P_nbLines P then reset P env s else Returns () s) of
           Returns u s1 \<Rightarrow>
             growLoop env maxMillisecondsTaken start 0 (s1\<lparr>targetNbSegments := P_nbLines P\<rparr>)
         | TypeError s1 \<Rightarrow> TypeError s1
         | Hangs \<Rightarrow> Hangs)"

section \<open>Well-formed readbacks and inputs to run the planner on\<close>

text \<open>
  The readback of a canvas of at least one pixel holds four bytes for each pixel, as the
  array of \<^verbatim>\<open>getImageData(0, 0, width, height)\<close> does.
\<close>

definition wellFormedData :: "ISize \<Rightarrow> nat list \<Rightarrow> bool" where
  "wellFormedData cs d \<longleftrightarrow>
     0 < size_width cs \<and> 0 < size_height cs \<and> length d = 4 * (size_width cs * size_height cs)"

text \<open>
  A browser and parameters to run the planner on: the clock advances by one millisecond at
  each reading, \<^verbatim>\<open>Math.random()\<close> gives 0, the source image is uniformly light grey and opaque,
  and a stroke leaves the canvas as it is. With these the canvas that \<^verbatim>\<open>resetHiddenCanvas\<close>
  draws is uniformly grey, with the value 100 in each colour channel.
\<close>

definition exampleBrowser :: Browser where
  "exampleBrowser =
     \<lparr>env_now = (\<lambda>k. real k), env_random = (\<lambda>k. 0),
      env_drawImage = (\<lambda>cs i. (200, 200, 200, 255)),
      env_stroke = (\<lambda>cs d peg1 peg2. d)\<rparr>"

definition exampleParameters :: Parameters where
  "exampleParameters =
     \<lparr>P_nbLines = 1, P_shape = RECTANGLE, P_pegsSpacing = 256, P_invertColors = False\<rparr>"


definition greyCanvas :: "nat \<Rightarrow> nat list" where
  "greyCanvas nbPixels = concat (map (\<lambda>i. [100, 100, 100, 255]) [0 ..< nbPixels])"

text \<open>
  The object as the constructor has it when it calls \<^verbatim>\<open>computePegs\<close>, for the RECTANGLE shape
  with a spacing of 32 on a canvas of 256 by 256 pixels, and for the CIRCLE shape with a
  spacing of 512 on a canvas of 256 by 192 pixels.
\<close>

definition exampleRectangle :: ThreadComputer where
  "exampleRectangle =
     \<lparr>targetNbSegments = 0, sourceImage = \<lparr>size_width = 512, size_height = 512\<rparr>,
      hiddenCanvas = \<lparr>size_width = 256, size_height = 256\<rparr>,
      hiddenCanvasContext = greyCanvas (256 * 256), hiddenCanvasData = None,
      pegsShape = RECTANGLE, pegsSpacing = 32,
      pegs = [], threadPegs = [], arePegsTooClose = rectangleTooClose\<rparr>"

definition exampleCircle :: ThreadComputer where
  "exampleCircle =
     \<lparr>targetNbSegments = 0, sourceImage = \<lparr>size_width = 1024, size_height = 768\<rparr>,
      hiddenCanvas = \<lparr>size_width = 256, size_height = 192\<rparr>,
      hiddenCanvasContext = greyCanvas (256 * 192), hiddenCanvasData = None,
      pegsShape = CIRCLE, pegsSpacing = 512,
      pegs = [], threadPegs = [], arePegsTooClose = circleTooClose\<rparr>"

text \<open>
  The same for the RECTANGLE shape on a canvas of 256 by 192 pixels with the spacing 19.2,
  that is, the double nearest to 19.2, which is \<open>5404319552844595 / 2^48\<close> and a little less
  than 19.2.
\<close>

definition unevenRectangle :: ThreadComputer where
  "unevenRectangle =
     \<lparr>targetNbSegments = 0, sourceImage = \<lparr>size_width = 1024, size_height = 768\<rparr>,
      hiddenCanvas = \<lparr>size_width = 256, size_height = 192\<rparr>,
      hiddenCanvasContext = greyCanvas (256 * 192), hiddenCanvasData = None,
      pegsShape = RECTANGLE, pegsSpacing = 5404319552844595 / 281474976710656,
      pegs = [], threadPegs = [], arePegsTooClose = rectangleTooClose\<rparr>"

text \<open>
  The planner that the constructor builds for an image of 512 by 512 pixels, the RECTANGLE
  shape and a spacing of 256: its pegs are the four corners of the canvas.
\<close>

definition cornersComputer :: ThreadComputer where
  "cornersComputer =
     \<lparr>targetNbSegments = 0, sourceImage = \<lparr>size_width = 512, size_height = 512\<rparr>,
      hiddenCanvas = \<lparr>size_width = 256, size_height = 256\<rparr>,
      hiddenCanvasContext = greyCanvas (256 * 256), hiddenCanvasData = None,
      pegsShape = RECTANGLE, pegsSpacing = 256,
      pegs = [\<lparr>peg_x = 0, peg_y = 0, peg_angle = None\<rparr>,
              \<lparr>peg_x = 255, peg_y = 0, peg_angle = None\<rparr>,
              \<lparr>peg_x = 255, peg_y = 255, peg_angle = None\<rparr>,
              \<lparr>peg_x = 0, peg_y = 255, peg_angle = None\<rparr>],
      threadPegs = [], arePegsTooClose = rectangleTooClose\<rparr>"

text \<open>
  That planner after its first step towards a target of 3 segments: the path is one of
  the diagonals.
\<close>

definition oneSegmentComputer :: ThreadComputer where
  "oneSegmentComputer =
     cornersComputer\<lparr>targetNbSegments := 3, threadPegs :=
        [Some \<lparr>peg_x = 0, peg_y = 0, peg_angle = None\<rparr>,
         Some \<lparr>peg_x = 255, peg_y = 255, peg_angle = None\<rparr>]\<rparr>"

text \<open>
  The planner that the constructor builds for an image of 1024 by 4 pixels, the RECTANGLE
  shape and a spacing of 256. The canvas is one pixel high, so the four corners are on one
  line and every pair of pegs is too close.
\<close>

definition flatComputer :: ThreadComputer where
  "flatComputer =
     \<lparr>targetNbSegments = 0, sourceImage = \<lparr>size_width = 1024, size_height = 4\<rparr>,
      hiddenCanvas = \<lparr>size_width = 256, size_height = 1\<rparr>,
      hiddenCanvasContext = greyCanvas (256 * 1), hiddenCanvasData = None,
      pegsShape = RECTANGLE, pegsSpacing = 256,
      pegs = [\<lparr>peg_x = 0, peg_y = 0, peg_angle = None\<rparr>,
              \<lparr>peg_x = 255, peg_y = 0, peg_angle = None\<rparr>,
              \<lparr>peg_x = 255, peg_y = 0, peg_angle = None\<rparr>,
              \<lparr>peg_x = 0, peg_y = 0, peg_angle = None\<rparr>],
      threadPegs = [], arePegsTooClose = rectangleTooClose\<rparr>"

section \<open>Rounding to a double\<close>

text \<open>
  What the layout needs of \<open>fl\<close>: a number that is at least 0 is rounded to one that is at
  least 0, the doubles are left unchanged (the integers below \<open>2^53\<close> and their products with
  powers of two among them), and rounding is monotone at a double: a number below a double
  is rounded to at most that double, and a number above it to at least that double.
\<close>

lemma roundHalfEven_bounds: "\<lfloor>v\<rfloor> \<le> roundHalfEven v" "roundHalfEven v \<le> \<lfloor>v\<rfloor> + 1"
  by (simp_all add: roundHalfEven_def Let_def)

lemma roundHalfEven_of_int [simp]: "roundHalfEven (of_int n) = n"
  by (simp add: roundHalfEven_def Let_def)

lemma roundHalfEven_mono: "v \<le> w \<Longrightarrow> roundHalfEven v \<le> roundHalfEven w"
proof -
  assume vw: "v \<le> w"
  then have fl: "\<lfloor>v\<rfloor> \<le> \<lfloor>w\<rfloor>" by (rule floor_mono)
  show ?thesis
  proof (cases "\<lfloor>v\<rfloor> = \<lfloor>w\<rfloor>")
    case True
    then have "v - of_int \<lfloor>v\<rfloor> \<le> w - of_int \<lfloor>w\<rfloor>" using vw by simp
    then show ?thesis using True by (auto simp: roundHalfEven_def Let_def)
  next
    case False
    then have "\<lfloor>v\<rfloor> + 1 \<le> \<lfloor>w\<rfloor>" using fl by simp
    then show ?thesis
      using roundHalfEven_bounds(2) [of v] roundHalfEven_bounds(1) [of w] by linarith
  qed
qed

lemma binade_eq:
  assumes "2 powr real_of_int e \<le> x" and "x < 2 powr real_of_int (e + 1)"
  shows "binade x = e"
proof -
  have x: "0 < x" using assms(1) using powr_gt_zero [of 2 "real_of_int e"] by linarith
  have "real_of_int e \<le> log 2 x" using assms(1) x by (simp add: le_log_iff)
  moreover have "log 2 x < real_of_int (e + 1)" using assms(2) x by (simp add: log_less_iff)
  ultimately show ?thesis using x by (simp add: binade_def floor_eq_iff)
qed

lemma binade_bounds:
  assumes "0 < x"
  shows "2 powr real_of_int (binade x) \<le> x" and "x < 2 powr real_of_int (binade x + 1)"
proof -
  have "real_of_int (binade x) \<le> log 2 x" using assms by (simp add: binade_def)
  then show "2 powr real_of_int (binade x) \<le> x" using assms by (simp add: le_log_iff)
  have "log 2 x < real_of_int (binade x + 1)" using assms by (simp add: binade_def)
  then show "x < 2 powr real_of_int (binade x + 1)" using assms by (simp add: log_less_iff)
qed

lemma binade_mono: "0 < x \<Longrightarrow> x \<le> y \<Longrightarrow> binade x \<le> binade y"
  by (simp add: binade_def floor_mono log_le_cancel_iff)

lemma quantum_pos [simp]: "0 < quantum x"
  by (simp add: quantum_def)

lemma quantum_nonneg [simp]: "0 \<le> quantum x"
  using quantum_pos [of x] by linarith

lemma quantum_nz [simp]: "quantum x \<noteq> 0"
  using quantum_pos [of x] by linarith

lemma fl_zero [simp]: "fl 0 = 0"
  by (simp add: fl_def)

lemma fl_nonneg: "0 \<le> x \<Longrightarrow> 0 \<le> fl x"
proof -
  assume "0 \<le> x"
  then have "0 \<le> x / quantum x" using quantum_pos [of x] by (simp add: divide_nonneg_pos)
  then have "0 \<le> \<lfloor>x / quantum x\<rfloor>" by simp
  then have "0 \<le> roundHalfEven (x / quantum x)"
    using roundHalfEven_bounds(1) [of "x / quantum x"] by linarith
  then have "0 \<le> real_of_int (roundHalfEven (x / quantum x)) * quantum x"
    using quantum_pos [of x] by (intro mult_nonneg_nonneg) simp_all
  then show ?thesis by (simp add: fl_def)
qed

lemma fl_exact:
  assumes "x / quantum x = real_of_int m"
  shows "fl x = x"
proof (cases "x = 0")
  case True
  then show ?thesis by simp
next
  case False
  have "real_of_int (roundHalfEven (x / quantum x)) * quantum x = x / quantum x * quantum x"
    unfolding assms by simp
  then show ?thesis using False by (simp add: fl_def)
qed

lemma powr_int_nat: "0 \<le> d \<Longrightarrow> 2 powr real_of_int d = (2::real) ^ nat d"
  by (simp add: powr_real_of_int)

lemma quantum_ratio:
  assumes "0 < x" and "x \<le> y"
  shows "\<exists>k::nat. quantum y = 2 ^ k * quantum x"
proof -
  let ?cx = "max (binade x) (- 1022) - 52" and ?cy = "max (binade y) (- 1022) - 52"
  have le: "?cx \<le> ?cy" using binade_mono [OF assms] by simp
  then have d: "0 \<le> ?cy - ?cx" by linarith
  have "quantum y = 2 powr real_of_int (?cy - ?cx) * quantum x"
    by (simp add: quantum_def powr_add [symmetric])
  also have "2 powr real_of_int (?cy - ?cx) = (2::real) ^ nat (?cy - ?cx)"
    by (rule powr_int_nat [OF d])
  finally show ?thesis by blast
qed

text \<open>Rounding does not cross a double: it is monotone at the numbers it leaves unchanged.\<close>

lemma fl_le_double:
  assumes "0 \<le> x" and "x \<le> y" and "y = real_of_int m * quantum y"
  shows "fl x \<le> y"
proof (cases "x = 0")
  case True
  then show ?thesis using assms by simp
next
  case False
  then have x: "0 < x" using assms(1) by simp
  obtain k :: nat where k: "quantum y = 2 ^ k * quantum x"
    using quantum_ratio [OF x assms(2)] by blast
  have y: "y = real_of_int (m * 2 ^ k) * quantum x"
    by (subst assms(3)) (simp add: k)
  have "x / quantum x \<le> y / quantum x"
    using assms(2) quantum_pos [of x] by (simp add: divide_right_mono)
  also have "y / quantum x = real_of_int (m * 2 ^ k)"
    by (subst y) simp
  finally have "roundHalfEven (x / quantum x) \<le> roundHalfEven (real_of_int (m * 2 ^ k))"
    by (rule roundHalfEven_mono)
  then have "roundHalfEven (x / quantum x) \<le> m * 2 ^ k"
    by (simp only: roundHalfEven_of_int)
  then have "real_of_int (roundHalfEven (x / quantum x)) \<le> real_of_int (m * 2 ^ k)"
    by (simp only: of_int_le_iff)
  then have "real_of_int (roundHalfEven (x / quantum x)) * quantum x
      \<le> real_of_int (m * 2 ^ k) * quantum x"
    using quantum_nonneg [of x] by (rule mult_right_mono)
  then show ?thesis using False y by (simp add: fl_def)
qed

lemma double_le_fl:
  assumes "0 < y" and "y \<le> x" and "y = real_of_int m * quantum y"
  shows "y \<le> fl x"
proof -
  have x: "0 < x" using assms(1,2) by simp
  let ?cx = "max (binade x) (- 1022) - 52" and ?cy = "max (binade y) (- 1022) - 52"
  have le: "?cy \<le> ?cx" using binade_mono [OF assms(1,2)] by simp
  show ?thesis
  proof (cases "?cy = ?cx")
    case True
    then have q: "quantum y = quantum x" by (simp add: quantum_def)
    have "real_of_int m = y / quantum x" by (subst assms(3)) (simp add: q)
    also have "\<dots> \<le> x / quantum x"
      using assms(2) quantum_pos [of x] by (simp add: divide_right_mono)
    finally have "roundHalfEven (real_of_int m) \<le> roundHalfEven (x / quantum x)"
      by (rule roundHalfEven_mono)
    then have "real_of_int m \<le> real_of_int (roundHalfEven (x / quantum x))"
      by (simp only: roundHalfEven_of_int of_int_le_iff)
    then have "real_of_int m * quantum x
        \<le> real_of_int (roundHalfEven (x / quantum x)) * quantum x"
      using quantum_nonneg [of x] by (rule mult_right_mono)
    then show ?thesis using x assms(3) q by (simp add: fl_def)
  next
    case False
    have bx: "- 1022 < binade x" "binade y < binade x"
      using False binade_mono [OF assms(1,2)] by (auto simp: max_def split: if_splits)
    have qx: "quantum x = 2 powr real_of_int (binade x - 52)"
      using bx(1) by (simp add: quantum_def max_def)
    have "2 powr real_of_int (binade x) / quantum x = 2 powr real_of_int 52"
      unfolding qx by (simp add: powr_diff [symmetric])
    also have "\<dots> = real_of_int (2 ^ 52)" by simp
    finally have p: "2 powr real_of_int (binade x) / quantum x = real_of_int (2 ^ 52)" .
    have "2 powr real_of_int (binade x) / quantum x \<le> x / quantum x"
      using binade_bounds(1) [OF x] quantum_pos [of x] by (simp add: divide_right_mono)
    then have "roundHalfEven (real_of_int (2 ^ 52)) \<le> roundHalfEven (x / quantum x)"
      unfolding p by (rule roundHalfEven_mono)
    then have "real_of_int (2 ^ 52) \<le> real_of_int (roundHalfEven (x / quantum x))"
      by (simp only: roundHalfEven_of_int of_int_le_iff)
    then have "real_of_int (2 ^ 52) * quantum x
        \<le> real_of_int (roundHalfEven (x / quantum x)) * quantum x"
      using quantum_nonneg [of x] by (rule mult_right_mono)
    moreover have "real_of_int (2 ^ 52) * quantum x = 2 powr real_of_int (binade x)"
      using p by (simp add: field_simps)
    moreover have "fl x = real_of_int (roundHalfEven (x / quantum x)) * quantum x"
      using x by (simp add: fl_def)
    ultimately have "2 powr real_of_int (binade x) \<le> fl x" by (simp only:)
    moreover have "y < 2 powr real_of_int (binade y + 1)" by (rule binade_bounds(2) [OF assms(1)])
    moreover have "2 powr real_of_int (binade y + 1) \<le> 2 powr real_of_int (binade x)"
      using bx(2) by simp
    ultimately show ?thesis by linarith
  qed
qed

text \<open>The numbers \<open>m * 2^k\<close> with \<open>|m| < 2^53\<close> and \<open>k \<ge> -1074\<close> are doubles.\<close>

lemma double_scaled:
  assumes "\<bar>m\<bar> < 2 ^ 53" and "- 1074 \<le> k"
  shows "\<exists>n. real_of_int m * 2 powr real_of_int k
           = real_of_int n * quantum (real_of_int m * 2 powr real_of_int k)"
proof (cases "m = 0")
  case True
  then show ?thesis by (intro exI [of _ 0]) simp
next
  case False
  let ?x = "real_of_int m * 2 powr real_of_int k"
  let ?c = "max (binade ?x) (- 1022) - 52"
  have ax: "\<bar>?x\<bar> = real_of_int \<bar>m\<bar> * 2 powr real_of_int k" by (simp add: abs_mult)
  have pos: "0 < \<bar>?x\<bar>" using False by simp
  have "real_of_int \<bar>m\<bar> < real_of_int (2 ^ 53)" using assms(1) by (simp only: of_int_less_iff)
  then have "real_of_int \<bar>m\<bar> < 2 ^ 53" by simp
  then have "\<bar>?x\<bar> < 2 ^ 53 * 2 powr real_of_int k"
    unfolding ax by (simp add: mult_strict_right_mono)
  also have "(2::real) ^ 53 * 2 powr real_of_int k = 2 powr real_of_int (53 + k)"
    by (simp add: powr_add)
  finally have "log 2 \<bar>?x\<bar> < real_of_int (53 + k)"
    using pos by (simp only: log_less_iff [of 2 "\<bar>?x\<bar>"])
  then have "binade ?x < 53 + k" by (simp add: binade_def floor_less_iff)
  then have ck: "?c \<le> k" using assms(2) by simp
  have "quantum ?x * 2 powr real_of_int (k - ?c) = 2 powr real_of_int k"
    by (simp add: quantum_def powr_add [symmetric])
  moreover have "2 powr real_of_int (k - ?c) = (2::real) ^ nat (k - ?c)"
    using ck by (intro powr_int_nat) linarith
  ultimately have "2 powr real_of_int k = real_of_int (2 ^ nat (k - ?c)) * quantum ?x"
    by (simp add: mult.commute)
  then have "?x = real_of_int (m * 2 ^ nat (k - ?c)) * quantum ?x" by simp
  then show ?thesis by blast
qed

lemma double_nat:
  assumes "n < 2 ^ 53"
  shows "\<exists>m. real n = real_of_int m * quantum (real n)"
proof -
  have "\<bar>int n\<bar> < 2 ^ 53" using assms by simp
  from double_scaled [OF this, of 0] show ?thesis by simp
qed

lemma fl_double: "x = real_of_int m * quantum x \<Longrightarrow> fl x = x"
  by (rule fl_exact [of x m]) (simp add: field_simps)

lemma fl_nat: "n < 2 ^ 53 \<Longrightarrow> fl (real n) = real n"
  using double_nat [of n] fl_double by blast

lemma fl_scaled:
  "\<bar>m\<bar> < 2 ^ 53 \<Longrightarrow> - 1074 \<le> k \<Longrightarrow>
     fl (real_of_int m * 2 powr real_of_int k) = real_of_int m * 2 powr real_of_int k"
  using double_scaled [of m k] fl_double by blast

text \<open>The value of \<^const>\<open>fl\<close> at a number whose binade is known.\<close>

lemma fl_binade:
  assumes "2 powr real_of_int e \<le> x" and "x < 2 powr real_of_int (e + 1)" and "- 1022 \<le> e"
  shows "fl x = real_of_int (roundHalfEven (x * 2 powr real_of_int (52 - e)))
                  * 2 powr real_of_int (e - 52)"
proof -
  have b: "binade x = e" by (rule binade_eq [OF assms(1,2)])
  have x: "0 < x" using assms(1) using powr_gt_zero [of 2 "real_of_int e"] by linarith
  have q: "quantum x = 2 powr real_of_int (e - 52)" using assms(3) by (simp add: quantum_def b)
  have "x / quantum x = x * 2 powr real_of_int (52 - e)"
    unfolding q by (simp add: powr_diff field_simps)
  then show ?thesis using x q by (simp add: fl_def)
qed

lemma double_int:
  assumes "0 \<le> n" and "n \<le> 2 ^ 53"
  shows "\<exists>m. real_of_int n = real_of_int m * quantum (real_of_int n)"
proof (cases "n = 2 ^ 53")
  case True
  have "\<bar>1::int\<bar> < 2 ^ 53" by simp
  from double_scaled [OF this, of 53] show ?thesis unfolding True by simp
next
  case False
  then have "\<bar>n\<bar> < 2 ^ 53" using assms by linarith
  from double_scaled [OF this, of 0] show ?thesis by simp
qed

lemma fl_examples:
  "fl 1 = 1" "fl 8 = 8" "fl 192 = 192" "fl 256 = 256"
  "fl (1 / 2) = 1 / 2" "fl (1 / 4) = 1 / 4" "fl (1 / 256) = 1 / 256"
  using fl_nat [of 1] fl_nat [of 8] fl_nat [of 192] fl_nat [of 256]
    fl_scaled [of 1 "- 1"] fl_scaled [of 1 "- 2"] fl_scaled [of 1 "- 8"]
  by (simp_all add: powr_neg_numeral)

section \<open>The rectangle layout\<close>

lemma length_concat_pairs: "length (concat (map (\<lambda>i. [f i, g i]) xs)) = 2 * length xs"
  by (induction xs) auto

lemma set_concat_pairs: "set (concat (map (\<lambda>i. [f i, g i]) xs)) = (\<Union>i\<in>set xs. {f i, g i})"
  by (induction xs) auto

text \<open>
  The canvas of a loaded image: \<^verbatim>\<open>computeBestSize\<close> on two of the images used below, and
  on an image of 273 by 364 pixels, where the product \<open>273 \<sqdot> fl (256 / 364)\<close> is a little
  more than 192.
\<close>

lemma computeBestSize_square:
  "computeBestSize \<lparr>size_width = 512, size_height = 512\<rparr> 256
     = \<lparr>size_width = 256, size_height = 256\<rparr>"
  by (simp add: computeBestSize_def Let_def fl_examples)

lemma computeBestSize_flat:
  "computeBestSize \<lparr>size_width = 1024, size_height = 4\<rparr> 256
     = \<lparr>size_width = 256, size_height = 1\<rparr>"
  by (simp add: computeBestSize_def Let_def fl_examples)

lemma computeBestSize_rounded:
  "computeBestSize \<lparr>size_width = 273, size_height = 364\<rparr> 256
     = \<lparr>size_width = 193, size_height = 256\<rparr>"
proof -
  define c :: real where "c = 6334733541795863 / 9007199254740992"
  have "fl (64 / 91) = real_of_int (roundHalfEven (64 / 91 * 2 powr real_of_int (52 - (- 1))))
                  * 2 powr real_of_int ((- 1) - 52)"
    by (rule fl_binade) (simp_all add: powr_neg_numeral)
  also have "\<dots> = c"
    by (simp add: c_def roundHalfEven_def Let_def powr_neg_numeral)
  finally have f: "fl (64 / 91) = c" .
  have "fl (273 * c) = real_of_int (roundHalfEven (273 * c * 2 powr real_of_int (52 - 7)))
                  * 2 powr real_of_int (7 - 52)"
    by (rule fl_binade) (simp_all add: c_def powr_neg_numeral)
  also have "\<lceil>\<dots>\<rceil> = 193"
    by (simp add: c_def roundHalfEven_def Let_def powr_neg_numeral)
  finally have w: "\<lceil>fl (273 * c)\<rceil> = 193" .
  have "fl (364 * c) = real_of_int (roundHalfEven (364 * c * 2 powr real_of_int (52 - 8)))
                  * 2 powr real_of_int (8 - 52)"
    by (rule fl_binade) (simp_all add: c_def powr_neg_numeral)
  also have "\<lceil>\<dots>\<rceil> = 256"
    by (simp add: c_def roundHalfEven_def Let_def powr_neg_numeral)
  finally have h: "\<lceil>fl (364 * c)\<rceil> = 256" .
  show ?thesis by (simp add: computeBestSize_def Let_def f w h)
qed

text \<open>The bound of a side loop: when it exists, and how far rounding can take it.\<close>

lemma nbPegsPerSide_returns:
  assumes "0 < spacing" and "real side / spacing \<le> 2 ^ 53"
  shows "nbPegsPerSide side spacing = Some \<lceil>fl (real side / spacing)\<rceil>"
proof -
  have "\<bar>1::int\<bar> < 2 ^ 53" by simp
  from double_scaled [OF this, of 53]
  obtain m where m: "(2::real) ^ 53 = real_of_int m * quantum (2 ^ 53)" by auto
  have "0 \<le> real side / spacing" using assms(1) by simp
  then have "fl (real side / spacing) \<le> 2 ^ 53" using assms(2) m by (rule fl_le_double)
  then show ?thesis using assms(1) by (simp add: nbPegsPerSide_def Let_def)
qed

lemma rounded_quotient_bounds:
  assumes "0 < side" and "0 < spacing" and "spacing < 2 ^ 1024"
    and "real side / spacing \<le> 2 ^ 53"
  shows "1 \<le> \<lceil>fl (real side / spacing)\<rceil>"
    and "\<lfloor>real side / spacing\<rfloor> \<le> \<lceil>fl (real side / spacing)\<rceil>"
    and "\<lceil>fl (real side / spacing)\<rceil> \<le> \<lceil>real side / spacing\<rceil>"
proof -
  let ?x = "real side / spacing"
  have x0: "0 < ?x" using assms(1,2) by simp
  have "\<bar>1::int\<bar> < 2 ^ 53" by simp
  from double_scaled [OF this, of "- 1024"]
  obtain m where m: "2 powr real_of_int (- 1024)
      = real_of_int m * quantum (2 powr real_of_int (- 1024))" by auto
  have small: "2 powr real_of_int (- 1024) = 1 / (2::real) ^ 1024"
    by (simp add: powr_neg_numeral)
  have "1 / (2::real) ^ 1024 < 1 / spacing"
    using assms(2,3) by (simp add: divide_strict_left_mono)
  also have "1 / spacing \<le> ?x" using assms(1,2) by (simp add: divide_right_mono)
  finally have "2 powr real_of_int (- 1024) \<le> ?x" unfolding small by simp
  then have "2 powr real_of_int (- 1024) \<le> fl ?x"
    by (rule double_le_fl [OF _ _ m, rotated]) simp
  then have pos: "0 < fl ?x" using powr_gt_zero [of 2 "real_of_int (- 1024)"] by linarith
  then show one: "1 \<le> \<lceil>fl ?x\<rceil>" by linarith
  have c0: "0 \<le> \<lceil>?x\<rceil>" using x0 by linarith
  have "\<lceil>?x\<rceil> \<le> \<lceil>(2::real) ^ 53\<rceil>" using assms(4) by (rule ceiling_mono)
  then have c1: "\<lceil>?x\<rceil> \<le> 2 ^ 53" by simp
  obtain k where k: "real_of_int \<lceil>?x\<rceil> = real_of_int k * quantum (real_of_int \<lceil>?x\<rceil>)"
    using double_int [OF c0 c1] by blast
  have "fl ?x \<le> real_of_int \<lceil>?x\<rceil>"
    by (rule fl_le_double [OF _ _ k]) (use x0 in simp_all)
  then show "\<lceil>fl ?x\<rceil> \<le> \<lceil>?x\<rceil>" by (simp add: ceiling_le)
  show "\<lfloor>?x\<rfloor> \<le> \<lceil>fl ?x\<rceil>"
  proof (cases "0 < \<lfloor>?x\<rfloor>")
    case False
    then show ?thesis using one by linarith
  next
    case True
    have "\<lfloor>?x\<rfloor> \<le> \<lfloor>(2::real) ^ 53\<rfloor>" using assms(4) by (rule floor_mono)
    then have f1: "\<lfloor>?x\<rfloor> \<le> 2 ^ 53" by simp
    have f0: "0 \<le> \<lfloor>?x\<rfloor>" using True by simp
    obtain j where j: "real_of_int \<lfloor>?x\<rfloor> = real_of_int j * quantum (real_of_int \<lfloor>?x\<rfloor>)"
      using double_int [OF f0 f1] by blast
    have "real_of_int \<lfloor>?x\<rfloor> \<le> fl ?x"
      by (rule double_le_fl [OF _ _ j]) (use True in simp_all)
    then show ?thesis by linarith
  qed
qed

text \<open>A rounded fraction of a side stays on the side.\<close>

lemma rounded_fraction_bounds:
  assumes "i < nat n" and "0 \<le> m" and "m = real_of_int k * quantum m"
  shows "0 \<le> fl (m * fl (real i / real_of_int n))"
    and "fl (m * fl (real i / real_of_int n)) \<le> m"
proof -
  have n: "0 < real_of_int n" using assms(1) by linarith
  have "real i \<le> real_of_int n" using assms(1) by linarith
  then have le1: "real i / real_of_int n \<le> 1" using n by simp
  have ge0: "0 \<le> real i / real_of_int n" using n by simp
  obtain j where one: "(1::real) = real_of_int j * quantum 1"
    using double_nat [of 1] by auto
  have t0: "0 \<le> fl (real i / real_of_int n)" by (rule fl_nonneg [OF ge0])
  have t1: "fl (real i / real_of_int n) \<le> 1" by (rule fl_le_double [OF ge0 le1 one])
  have p0: "0 \<le> m * fl (real i / real_of_int n)" using assms(2) t0 by (rule mult_nonneg_nonneg)
  have p1: "m * fl (real i / real_of_int n) \<le> m" using mult_left_mono [OF t1 assms(2)] by simp
  show "0 \<le> fl (m * fl (real i / real_of_int n))" by (rule fl_nonneg [OF p0])
  show "fl (m * fl (real i / real_of_int n)) \<le> m" by (rule fl_le_double [OF p0 p1 assms(3)])
qed

lemma rectanglePegs_eq:
  assumes "nbPegsPerSide width spacing = Some nW" and "nbPegsPerSide height spacing = Some nH"
  shows "rectanglePegs spacing width height =
     Some ([\<lparr>peg_x = 0, peg_y = 0, peg_angle = None\<rparr>,
            \<lparr>peg_x = real width - 1, peg_y = 0, peg_angle = None\<rparr>,
            \<lparr>peg_x = real width - 1, peg_y = real height - 1, peg_angle = None\<rparr>,
            \<lparr>peg_x = 0, peg_y = real height - 1, peg_angle = None\<rparr>]
       @ concat (map (\<lambda>iW.
            [\<lparr>peg_x = fl ((real width - 1) * fl (real iW / real_of_int nW)),
              peg_y = 0, peg_angle = None\<rparr>,
             \<lparr>peg_x = fl ((real width - 1) * fl (real iW / real_of_int nW)),
              peg_y = real height - 1, peg_angle = None\<rparr>])
            [1 ..< nat nW])
       @ concat (map (\<lambda>iH.
            [\<lparr>peg_x = 0,
              peg_y = fl ((real height - 1) * fl (real iH / real_of_int nH)),
              peg_angle = None\<rparr>,
             \<lparr>peg_x = real width - 1,
              peg_y = fl ((real height - 1) * fl (real iH / real_of_int nH)),
              peg_angle = None\<rparr>])
            [1 ..< nat nH]))"
  using assms by (simp add: rectanglePegs_def Let_def)

lemma nbPegsPerSide_one: "nbPegsPerSide 256 256 = Some 1" "nbPegsPerSide (Suc 0) 256 = Some 1"
  by (simp_all add: nbPegsPerSide_def Let_def fl_examples ceiling_eq_iff)

lemma rectanglePegs_corners:
  "rectanglePegs 256 256 256 =
     Some [\<lparr>peg_x = 0, peg_y = 0, peg_angle = None\<rparr>,
           \<lparr>peg_x = 255, peg_y = 0, peg_angle = None\<rparr>,
           \<lparr>peg_x = 255, peg_y = 255, peg_angle = None\<rparr>,
           \<lparr>peg_x = 0, peg_y = 255, peg_angle = None\<rparr>]"
  by (simp add: rectanglePegs_eq [OF nbPegsPerSide_one(1) nbPegsPerSide_one(1)])

lemma rectanglePegs_flat:
  "rectanglePegs 256 256 (Suc 0) =
     Some [\<lparr>peg_x = 0, peg_y = 0, peg_angle = None\<rparr>,
           \<lparr>peg_x = 255, peg_y = 0, peg_angle = None\<rparr>,
           \<lparr>peg_x = 255, peg_y = 0, peg_angle = None\<rparr>,
           \<lparr>peg_x = 0, peg_y = 0, peg_angle = None\<rparr>]"
  by (simp add: rectanglePegs_eq [OF nbPegsPerSide_one(1) nbPegsPerSide_one(2)])

lemma rectangle_layout_pure:
  assumes "nbPegsPerSide width spacing = Some nW" and "nbPegsPerSide height spacing = Some nH"
    and "1 \<le> nW" and "1 \<le> nH"
    and "0 < width" and "width < 2 ^ 53" and "0 < height" and "height < 2 ^ 53"
    and "rectanglePegs spacing width height = Some ps"
  shows "take 4 ps = [\<lparr>peg_x = 0, peg_y = 0, peg_angle = None\<rparr>,
            \<lparr>peg_x = real width - 1, peg_y = 0, peg_angle = None\<rparr>,
            \<lparr>peg_x = real width - 1, peg_y = real height - 1, peg_angle = None\<rparr>,
            \<lparr>peg_x = 0, peg_y = real height - 1, peg_angle = None\<rparr>]
     \<and> int (length ps) = 4 + 2 * (nW - 1) + 2 * (nH - 1)
     \<and> set (drop 4 ps) =
          (\<Union>i \<in> {1 ..< nat nW}.
             {\<lparr>peg_x = fl ((real width - 1) * fl (real i / real_of_int nW)),
               peg_y = 0, peg_angle = None\<rparr>,
              \<lparr>peg_x = fl ((real width - 1) * fl (real i / real_of_int nW)),
               peg_y = real height - 1, peg_angle = None\<rparr>})
          \<union> (\<Union>i \<in> {1 ..< nat nH}.
             {\<lparr>peg_x = 0,
               peg_y = fl ((real height - 1) * fl (real i / real_of_int nH)),
               peg_angle = None\<rparr>,
              \<lparr>peg_x = real width - 1,
               peg_y = fl ((real height - 1) * fl (real i / real_of_int nH)),
               peg_angle = None\<rparr>})
     \<and> (\<forall>p \<in> set ps. 0 \<le> peg_x p \<and> peg_x p \<le> real width - 1
                       \<and> 0 \<le> peg_y p \<and> peg_y p \<le> real height - 1)"
proof -
  have mW: "0 \<le> real width - 1" and mH: "0 \<le> real height - 1" using assms(5,7) by simp_all
  have "width - 1 < 2 ^ 53" "height - 1 < 2 ^ 53" using assms(6,8) by simp_all
  then obtain kW kH where "real (width - 1) = real_of_int kW * quantum (real (width - 1))"
    and "real (height - 1) = real_of_int kH * quantum (real (height - 1))"
    using double_nat by blast
  moreover have "real (width - 1) = real width - 1" "real (height - 1) = real height - 1"
    using assms(5,7) by (simp_all add: of_nat_diff)
  ultimately have dW: "real width - 1 = real_of_int kW * quantum (real width - 1)"
    and dH: "real height - 1 = real_of_int kH * quantum (real height - 1)" by simp_all
  note bW = rounded_fraction_bounds [OF _ mW dW] and bH = rounded_fraction_bounds [OF _ mH dH]
  note eq = assms(9) [unfolded rectanglePegs_eq [OF assms(1,2)], simplified]
  have tk: "take 4 ps = [\<lparr>peg_x = 0, peg_y = 0, peg_angle = None\<rparr>,
            \<lparr>peg_x = real width - 1, peg_y = 0, peg_angle = None\<rparr>,
            \<lparr>peg_x = real width - 1, peg_y = real height - 1, peg_angle = None\<rparr>,
            \<lparr>peg_x = 0, peg_y = real height - 1, peg_angle = None\<rparr>]"
    by (simp add: eq [symmetric])
  have len: "int (length ps) = 4 + 2 * (nW - 1) + 2 * (nH - 1)"
  proof -
    have "int (nat nW - Suc 0) = nW - 1" and "int (nat nH - Suc 0) = nH - 1"
      using assms(3,4) by linarith+
    then show ?thesis by (simp add: eq [symmetric] length_concat_pairs)
  qed
  have dr: "set (drop 4 ps) =
          (\<Union>i \<in> {1 ..< nat nW}.
             {\<lparr>peg_x = fl ((real width - 1) * fl (real i / real_of_int nW)),
               peg_y = 0, peg_angle = None\<rparr>,
              \<lparr>peg_x = fl ((real width - 1) * fl (real i / real_of_int nW)),
               peg_y = real height - 1, peg_angle = None\<rparr>})
          \<union> (\<Union>i \<in> {1 ..< nat nH}.
             {\<lparr>peg_x = 0,
               peg_y = fl ((real height - 1) * fl (real i / real_of_int nH)),
               peg_angle = None\<rparr>,
              \<lparr>peg_x = real width - 1,
               peg_y = fl ((real height - 1) * fl (real i / real_of_int nH)),
               peg_angle = None\<rparr>})"
    by (simp add: eq [symmetric] set_concat_pairs)
  have bnd: "\<forall>p \<in> set ps.
      0 \<le> peg_x p \<and> peg_x p \<le> real width - 1 \<and> 0 \<le> peg_y p \<and> peg_y p \<le> real height - 1"
    using mW mH bW bH by (auto simp: eq [symmetric] set_concat_pairs)
  show ?thesis using tk len dr bnd by (intro conjI)
qed

text \<open>
  Claim C4, as amended: with the rounding of the code. Take a canvas of \<open>W \<times> H\<close> pixels, both sides at
  least 1 and below \<open>2^53\<close> (the sides of a canvas are below \<open>2^32\<close>), and a spacing \<open>s\<close> with
  \<open>0 < s < 2^1024\<close> (every positive double is) and \<open>W / s \<le> 2^53\<close>, \<open>H / s \<le> 2^53\<close>. Let \<open>nW\<close> and
  \<open>nH\<close> be the ceilings of the quotients \<open>W / s\<close> and \<open>H / s\<close> rounded to doubles. Then \<open>nW\<close> is
  \<open>\<lceil>W / s\<rceil>\<close> or \<open>\<lfloor>W / s\<rfloor>\<close>, and \<open>nH\<close> is \<open>\<lceil>H / s\<rceil>\<close> or \<open>\<lfloor>H / s\<rfloor>\<close>: rounding can take a quotient
  that is a little more than an integer down to that integer. The RECTANGLE layout of
  \<^verbatim>\<open>computePegs\<close> starts with the four corners \<open>(0,0), (W-1,0), (W-1,H-1), (0,H-1)\<close>, has
  \<open>4 + 2 (nW - 1) + 2 (nH - 1)\<close> pegs in all, its other pegs are exactly the pegs of the top
  and bottom sides at the abscissas \<open>fl ((W-1) \<sqdot> fl (i / nW))\<close>, \<open>1 \<le> i < nW\<close>, and the pegs of
  the left and right sides at the ordinates \<open>fl ((H-1) \<sqdot> fl (i / nH))\<close>, \<open>1 \<le> i < nH\<close>, and every
  peg lies in \<open>[0, W-1] \<times> [0, H-1]\<close>.
\<close>

theorem rectangle_layout:
  assumes "pegsShape s = RECTANGLE"
    and "hiddenCanvas s = \<lparr>size_width = W, size_height = H\<rparr>"
    and "0 < W" and "W < 2 ^ 53" and "0 < H" and "H < 2 ^ 53"
    and "0 < pegsSpacing s" and "pegsSpacing s < 2 ^ 1024"
    and "real W / pegsSpacing s \<le> 2 ^ 53" and "real H / pegsSpacing s \<le> 2 ^ 53"
    and "nW = \<lceil>fl (real W / pegsSpacing s)\<rceil>" and "nH = \<lceil>fl (real H / pegsSpacing s)\<rceil>"
  shows "(\<lfloor>real W / pegsSpacing s\<rfloor> \<le> nW \<and> nW \<le> \<lceil>real W / pegsSpacing s\<rceil>
          \<and> \<lfloor>real H / pegsSpacing s\<rfloor> \<le> nH \<and> nH \<le> \<lceil>real H / pegsSpacing s\<rceil>)
     \<and> (\<exists>ps. computePegs s = Some (ps, s\<lparr>arePegsTooClose := rectangleTooClose\<rparr>)
          \<and> take 4 ps =
               [\<lparr>peg_x = 0, peg_y = 0, peg_angle = None\<rparr>,
                \<lparr>peg_x = real W - 1, peg_y = 0, peg_angle = None\<rparr>,
                \<lparr>peg_x = real W - 1, peg_y = real H - 1, peg_angle = None\<rparr>,
                \<lparr>peg_x = 0, peg_y = real H - 1, peg_angle = None\<rparr>]
          \<and> int (length ps) = 4 + 2 * (nW - 1) + 2 * (nH - 1)
          \<and> set (drop 4 ps) =
               (\<Union>i \<in> {1 ..< nat nW}.
                  {\<lparr>peg_x = fl ((real W - 1) * fl (real i / real_of_int nW)),
                    peg_y = 0, peg_angle = None\<rparr>,
                   \<lparr>peg_x = fl ((real W - 1) * fl (real i / real_of_int nW)),
                    peg_y = real H - 1, peg_angle = None\<rparr>})
               \<union> (\<Union>i \<in> {1 ..< nat nH}.
                  {\<lparr>peg_x = 0,
                    peg_y = fl ((real H - 1) * fl (real i / real_of_int nH)),
                    peg_angle = None\<rparr>,
                   \<lparr>peg_x = real W - 1,
                    peg_y = fl ((real H - 1) * fl (real i / real_of_int nH)),
                    peg_angle = None\<rparr>})
          \<and> (\<forall>p \<in> set ps. 0 \<le> peg_x p \<and> peg_x p \<le> real W - 1
                            \<and> 0 \<le> peg_y p \<and> peg_y p \<le> real H - 1))"
proof -
  note qW = rounded_quotient_bounds [OF assms(3,7,8,9), folded assms(11)]
    and qH = rounded_quotient_bounds [OF assms(5,7,8,10), folded assms(12)]
  have cW: "nbPegsPerSide W (pegsSpacing s) = Some nW"
    unfolding assms(11) by (rule nbPegsPerSide_returns [OF assms(7,9)])
  have cH: "nbPegsPerSide H (pegsSpacing s) = Some nH"
    unfolding assms(12) by (rule nbPegsPerSide_returns [OF assms(7,10)])
  obtain ps where ps: "rectanglePegs (pegsSpacing s) W H = Some ps"
    using rectanglePegs_eq [OF cW cH] by blast
  have A: "computePegs s = Some (ps, s\<lparr>arePegsTooClose := rectangleTooClose\<rparr>)"
    using assms(1,2) ps by (simp add: computePegs_def)
  note B = rectangle_layout_pure [OF cW cH qW(1) qH(1) assms(3,4,5,6) ps]
  have Q: "\<lfloor>real W / pegsSpacing s\<rfloor> \<le> nW \<and> nW \<le> \<lceil>real W / pegsSpacing s\<rceil>
          \<and> \<lfloor>real H / pegsSpacing s\<rfloor> \<le> nH \<and> nH \<le> \<lceil>real H / pegsSpacing s\<rceil>"
    using qW(2,3) qH(2,3) by (intro conjI)
  show ?thesis by (rule conjI [OF Q], rule exI [of _ ps], rule conjI [OF A B])
qed

theorem rectangle_layout_witness:
  "pegsShape exampleRectangle = RECTANGLE
   \<and> hiddenCanvas exampleRectangle = \<lparr>size_width = 256, size_height = 256\<rparr>
   \<and> pegsSpacing exampleRectangle = 32
   \<and> \<lceil>fl (real (256::nat) / 32)\<rceil> = 8
   \<and> (\<exists>ps. computePegs exampleRectangle
               = Some (ps, exampleRectangle\<lparr>arePegsTooClose := rectangleTooClose\<rparr>)
          \<and> take 4 ps =
               [\<lparr>peg_x = 0, peg_y = 0, peg_angle = None\<rparr>,
                \<lparr>peg_x = 255, peg_y = 0, peg_angle = None\<rparr>,
                \<lparr>peg_x = 255, peg_y = 255, peg_angle = None\<rparr>,
                \<lparr>peg_x = 0, peg_y = 255, peg_angle = None\<rparr>]
          \<and> length ps = 32)"
proof -
  let ?s = exampleRectangle
  have h: "pegsShape ?s = RECTANGLE"
    "hiddenCanvas ?s = \<lparr>size_width = 256, size_height = 256\<rparr>"
    by (simp_all add: exampleRectangle_def)
  have sp: "pegsSpacing ?s = 32" by (simp add: exampleRectangle_def)
  have n: "(8::int) = \<lceil>fl (real (256::nat) / pegsSpacing ?s)\<rceil>"
    unfolding sp by (simp add: fl_examples)
  have b: "(0::nat) < 256" "(256::nat) < 2 ^ 53" "0 < pegsSpacing ?s" "pegsSpacing ?s < 2 ^ 1024"
    "real (256::nat) / pegsSpacing ?s \<le> 2 ^ 53"
    unfolding sp by simp_all
  from rectangle_layout [OF h b(1,2,1,2,3,4,5,5) n n] obtain ps where
    A: "computePegs ?s = Some (ps, ?s\<lparr>arePegsTooClose := rectangleTooClose\<rparr>)"
    and B: "take 4 ps =
          [\<lparr>peg_x = 0, peg_y = 0, peg_angle = None\<rparr>,
           \<lparr>peg_x = real (256::nat) - 1, peg_y = 0, peg_angle = None\<rparr>,
           \<lparr>peg_x = real (256::nat) - 1, peg_y = real (256::nat) - 1, peg_angle = None\<rparr>,
           \<lparr>peg_x = 0, peg_y = real (256::nat) - 1, peg_angle = None\<rparr>]"
    and C: "int (length ps) = 4 + 2 * (8 - 1) + 2 * (8 - 1)"
    by (elim exE conjE)
  from B have B': "take 4 ps =
          [\<lparr>peg_x = 0, peg_y = 0, peg_angle = None\<rparr>,
           \<lparr>peg_x = 255, peg_y = 0, peg_angle = None\<rparr>,
           \<lparr>peg_x = 255, peg_y = 255, peg_angle = None\<rparr>,
           \<lparr>peg_x = 0, peg_y = 255, peg_angle = None\<rparr>]" by simp
  from C have C': "length ps = 32" by simp
  have n': "\<lceil>fl (real (256::nat) / 32)\<rceil> = 8" using n unfolding sp by simp
  show ?thesis using h sp n' A B' C' by (intro conjI exI [of _ ps])
qed

text \<open>
  The count of the claim is \<open>4 + 2 (\<lceil>W/s\<rceil> - 1) + 2 (\<lceil>H/s\<rceil> - 1)\<close> with the exact quotients. On
  the canvas of 256 by 192 pixels, which is the canvas of an image of 1024 by 768 pixels,
  with the spacing 19.2 the quotient \<open>192 / s\<close> is a little more than 10 and the code rounds
  it to 10: the layout has 48 pegs, and the count of the claim is 50.
\<close>

lemma unevenRectangle_bounds:
  "nbPegsPerSide 256 (5404319552844595 / 281474976710656) = Some 14"
  "nbPegsPerSide 192 (5404319552844595 / 281474976710656) = Some 10"
proof -
  let ?s = "5404319552844595 / 281474976710656 :: real"
  let ?x = "real (256::nat) / ?s" and ?y = "real (192::nat) / ?s"
  have "fl ?x = real_of_int (roundHalfEven (?x * 2 powr real_of_int (52 - 3)))
                  * 2 powr real_of_int (3 - 52)"
    by (rule fl_binade) (simp_all add: powr_neg_numeral)
  also have "\<dots> = 7505999378950827 / 562949953421312"
    by (simp add: roundHalfEven_def Let_def powr_neg_numeral)
  finally have x: "fl ?x = 7505999378950827 / 562949953421312" .
  have "fl ?y = real_of_int (roundHalfEven (?y * 2 powr real_of_int (52 - 3)))
                  * 2 powr real_of_int (3 - 52)"
    by (rule fl_binade) (simp_all add: powr_neg_numeral)
  also have "\<dots> = 10"
    by (simp add: roundHalfEven_def Let_def powr_neg_numeral)
  finally have y: "fl ?y = 10" .
  show "nbPegsPerSide 256 ?s = Some 14" unfolding nbPegsPerSide_def Let_def x by simp
  show "nbPegsPerSide 192 ?s = Some 10" unfolding nbPegsPerSide_def Let_def y by simp
qed

theorem rectangle_count_counterexample:
  "pegsShape unevenRectangle = RECTANGLE
   \<and> computeBestSize (sourceImage unevenRectangle) HIDDEN_CANVAS_SIZE
       = hiddenCanvas unevenRectangle
   \<and> hiddenCanvas unevenRectangle = \<lparr>size_width = 256, size_height = 192\<rparr>
   \<and> 0 < pegsSpacing unevenRectangle
   \<and> map_option (length \<circ> fst) (computePegs unevenRectangle) = Some 48
   \<and> 4 + 2 * (\<lceil>256 / pegsSpacing unevenRectangle\<rceil> - 1)
       + 2 * (\<lceil>192 / pegsSpacing unevenRectangle\<rceil> - 1) = 50"
proof -
  have "\<exists>ps. rectanglePegs (5404319552844595 / 281474976710656) 256 192 = Some ps
      \<and> length ps = 48"
    unfolding rectanglePegs_eq [OF unevenRectangle_bounds] by (simp add: length_concat_pairs)
  then obtain ps where ps: "rectanglePegs (5404319552844595 / 281474976710656) 256 192 = Some ps"
    and len: "length ps = 48" by blast
  have c: "map_option (length \<circ> fst) (computePegs unevenRectangle) = Some 48"
    using ps len by (simp add: computePegs_def unevenRectangle_def)
  have e: "4 + 2 * (\<lceil>256 / pegsSpacing unevenRectangle\<rceil> - 1)
       + 2 * (\<lceil>192 / pegsSpacing unevenRectangle\<rceil> - 1) = 50"
    by (simp add: unevenRectangle_def)
  have h: "pegsShape unevenRectangle = RECTANGLE"
    "hiddenCanvas unevenRectangle = \<lparr>size_width = 256, size_height = 192\<rparr>"
    "0 < pegsSpacing unevenRectangle"
    by (simp_all add: unevenRectangle_def)
  have b: "computeBestSize (sourceImage unevenRectangle) HIDDEN_CANVAS_SIZE
       = hiddenCanvas unevenRectangle"
    by (simp add: unevenRectangle_def computeBestSize_def HIDDEN_CANVAS_SIZE_def Let_def
        fl_examples)
  show ?thesis using h b c e by (intro conjI)
qed

section \<open>The circle layout\<close>

lemma ceilBound_pos: "0 < b \<Longrightarrow> ceilBound a b = Some \<lceil>a / b\<rceil>"
  by (simp add: ceilBound_def)

lemma circlePegs_eq:
  assumes "0 < spacing"
  shows "circlePegs spacing width height =
     Some (map (\<lambda>iPeg.
        \<lparr>peg_x = 0.5 * real width * (1 + cos (real iPeg * (TWO_PI /
                    real_of_int \<lceil>0.5 * TWO_PI * real (max width height) / spacing\<rceil>))),
         peg_y = 0.5 * real height * (1 + sin (real iPeg * (TWO_PI /
                    real_of_int \<lceil>0.5 * TWO_PI * real (max width height) / spacing\<rceil>))),
         peg_angle = Some (real iPeg * (TWO_PI /
                    real_of_int \<lceil>0.5 * TWO_PI * real (max width height) / spacing\<rceil>))\<rparr>)
       [0 ..< nat \<lceil>0.5 * TWO_PI * real (max width height) / spacing\<rceil>])"
  using assms by (simp add: circlePegs_def ceilBound_pos Let_def)

lemma pi_ge_three: "3 \<le> pi"
proof -
  have "sin (pi / 6) \<le> pi / 6" by (rule sin_x_le_x) simp
  then show ?thesis by (simp add: sin_30)
qed

section \<open>The proximity predicates\<close>

lemma computePegs_cases:
  assumes "computePegs s = Some (ps, s')"
  shows "(pegsShape s = RECTANGLE \<and> s' = s\<lparr>arePegsTooClose := rectangleTooClose\<rparr>
            \<and> rectanglePegs (pegsSpacing s) (size_width (hiddenCanvas s))
                  (size_height (hiddenCanvas s)) = Some ps)
       \<or> (pegsShape s = CIRCLE \<and> s' = s\<lparr>arePegsTooClose := circleTooClose\<rparr>
            \<and> circlePegs (pegsSpacing s) (size_width (hiddenCanvas s))
                  (size_height (hiddenCanvas s)) = Some ps)"
  using assms by (cases "pegsShape s") (auto simp: computePegs_def Let_def)

lemma circlePegs_angle:
  assumes "circlePegs spacing width height = Some ps" and "p \<in> set ps"
  shows "\<exists>t. peg_angle p = Some t"
  using assms by (auto simp: circlePegs_def Let_def split: option.splits)

lemma exampleCircle_pegs:
  "computePegs exampleCircle =
     Some ([\<lparr>peg_x = 256, peg_y = 96, peg_angle = Some 0\<rparr>,
            \<lparr>peg_x = 0, peg_y = 96, peg_angle = Some pi\<rparr>],
           exampleCircle\<lparr>arePegsTooClose := circleTooClose\<rparr>)"
proof -
  have "1 < pi / 2" "pi / 2 \<le> 2" using pi_ge_three pi_less_4 by simp_all
  then have c: "\<lceil>pi / 2\<rceil> = 2" by linarith
  have u: "[0 ..< 2] = [0, Suc 0]" by (simp add: upt_rec)
  show ?thesis
    by (simp add: computePegs_def exampleCircle_def circlePegs_eq TWO_PI_def c u)
qed

text \<open>
  Claim C9. For the pegs \<open>a\<close>, \<open>b\<close> of a layout and the predicate that \<^verbatim>\<open>computePegs\<close> stores with
  it, \<open>tooClose(a,b) = tooClose(b,a)\<close> and \<open>tooClose(a,a)\<close> holds; for the RECTANGLE shape the
  predicate holds iff the pegs have the same \<open>x\<close> or the same \<open>y\<close>; for the CIRCLE shape both
  pegs have an angle and the predicate holds iff \<open>min(|\<Delta>\<theta>|, 2\<pi> - |\<Delta>\<theta>|) \<le> \<pi>/8\<close>.
\<close>

theorem tooClose_symmetric_reflexive:
  assumes "computePegs s = Some (ps, s')" and "a \<in> set ps" and "b \<in> set ps"
  shows "arePegsTooClose s' a b = arePegsTooClose s' b a
     \<and> arePegsTooClose s' a a
     \<and> (pegsShape s = RECTANGLE \<longrightarrow>
          (arePegsTooClose s' a b \<longleftrightarrow> peg_x a = peg_x b \<or> peg_y a = peg_y b))
     \<and> (pegsShape s = CIRCLE \<longrightarrow>
          (\<exists>ta tb. peg_angle a = Some ta \<and> peg_angle b = Some tb
             \<and> (arePegsTooClose s' a b \<longleftrightarrow> min \<bar>ta - tb\<bar> (2 * pi - \<bar>ta - tb\<bar>) \<le> pi / 8)))"
  using computePegs_cases [OF assms(1)]
proof (elim disjE conjE)
  assume r: "pegsShape s = RECTANGLE" "s' = s\<lparr>arePegsTooClose := rectangleTooClose\<rparr>"
  then show ?thesis by (auto simp: rectangleTooClose_def)
next
  assume c: "pegsShape s = CIRCLE" "s' = s\<lparr>arePegsTooClose := circleTooClose\<rparr>"
    and ps: "circlePegs (pegsSpacing s) (size_width (hiddenCanvas s))
                  (size_height (hiddenCanvas s)) = Some ps"
  obtain ta tb where t: "peg_angle a = Some ta" "peg_angle b = Some tb"
    using circlePegs_angle [OF ps] assms(2,3) by blast
  have sym: "circleTooClose a b = circleTooClose b a"
    using t by (simp add: circleTooClose_def Let_def abs_minus_commute)
  have refl: "circleTooClose a a"
    using t by (simp add: circleTooClose_def Let_def TWO_PI_def)
  have iff: "circleTooClose a b \<longleftrightarrow> min \<bar>ta - tb\<bar> (2 * pi - \<bar>ta - tb\<bar>) \<le> pi / 8"
    using t by (simp add: circleTooClose_def Let_def TWO_PI_def)
  show ?thesis using c sym refl iff t by simp
qed

lemma cornersComputer_pegs:
  "computePegs cornersComputer =
     Some ([\<lparr>peg_x = 0, peg_y = 0, peg_angle = None\<rparr>,
            \<lparr>peg_x = 255, peg_y = 0, peg_angle = None\<rparr>,
            \<lparr>peg_x = 255, peg_y = 255, peg_angle = None\<rparr>,
            \<lparr>peg_x = 0, peg_y = 255, peg_angle = None\<rparr>],
           cornersComputer\<lparr>arePegsTooClose := rectangleTooClose\<rparr>)"
  by (simp add: computePegs_def cornersComputer_def rectanglePegs_corners)

theorem tooClose_symmetric_reflexive_witness:
  "computePegs exampleCircle =
     Some ([\<lparr>peg_x = 256, peg_y = 96, peg_angle = Some 0\<rparr>,
            \<lparr>peg_x = 0, peg_y = 96, peg_angle = Some pi\<rparr>],
           exampleCircle\<lparr>arePegsTooClose := circleTooClose\<rparr>)
   \<and> circleTooClose \<lparr>peg_x = 256, peg_y = 96, peg_angle = Some 0\<rparr>
                     \<lparr>peg_x = 0, peg_y = 96, peg_angle = Some pi\<rparr>
     = circleTooClose \<lparr>peg_x = 0, peg_y = 96, peg_angle = Some pi\<rparr>
                      \<lparr>peg_x = 256, peg_y = 96, peg_angle = Some 0\<rparr>
   \<and> circleTooClose \<lparr>peg_x = 256, peg_y = 96, peg_angle = Some 0\<rparr>
                     \<lparr>peg_x = 256, peg_y = 96, peg_angle = Some 0\<rparr>
   \<and> \<not> circleTooClose \<lparr>peg_x = 256, peg_y = 96, peg_angle = Some 0\<rparr>
                     \<lparr>peg_x = 0, peg_y = 96, peg_angle = Some pi\<rparr>
   \<and> computePegs cornersComputer =
     Some ([\<lparr>peg_x = 0, peg_y = 0, peg_angle = None\<rparr>,
            \<lparr>peg_x = 255, peg_y = 0, peg_angle = None\<rparr>,
            \<lparr>peg_x = 255, peg_y = 255, peg_angle = None\<rparr>,
            \<lparr>peg_x = 0, peg_y = 255, peg_angle = None\<rparr>],
           cornersComputer\<lparr>arePegsTooClose := rectangleTooClose\<rparr>)
   \<and> rectangleTooClose \<lparr>peg_x = 0, peg_y = 0, peg_angle = None\<rparr>
                        \<lparr>peg_x = 255, peg_y = 255, peg_angle = None\<rparr>
     = rectangleTooClose \<lparr>peg_x = 255, peg_y = 255, peg_angle = None\<rparr>
                         \<lparr>peg_x = 0, peg_y = 0, peg_angle = None\<rparr>
   \<and> rectangleTooClose \<lparr>peg_x = 0, peg_y = 0, peg_angle = None\<rparr>
                        \<lparr>peg_x = 0, peg_y = 0, peg_angle = None\<rparr>
   \<and> \<not> rectangleTooClose \<lparr>peg_x = 0, peg_y = 0, peg_angle = None\<rparr>
                          \<lparr>peg_x = 255, peg_y = 255, peg_angle = None\<rparr>"
proof -
  let ?a = "\<lparr>peg_x = 256, peg_y = 96, peg_angle = Some 0\<rparr>"
  let ?b = "\<lparr>peg_x = 0, peg_y = 96, peg_angle = Some pi\<rparr>"
  let ?c = "\<lparr>peg_x = 0, peg_y = 0, peg_angle = None\<rparr>"
  let ?d = "\<lparr>peg_x = 255, peg_y = 255, peg_angle = None\<rparr>"
  have sh: "pegsShape exampleCircle = CIRCLE" "pegsShape cornersComputer = RECTANGLE"
    by (simp_all add: exampleCircle_def cornersComputer_def)
  have "\<not> pi \<le> pi / 8" using pi_gt_zero by linarith
  then have far: "\<not> min \<bar>0 - pi\<bar> (2 * pi - \<bar>0 - pi\<bar>) \<le> pi / 8" by simp
  have circle: "circleTooClose ?a ?b = circleTooClose ?b ?a \<and> circleTooClose ?a ?a
      \<and> \<not> circleTooClose ?a ?b"
    using tooClose_symmetric_reflexive [OF exampleCircle_pegs, of ?a ?b] sh far by auto
  have rectangle: "rectangleTooClose ?c ?d = rectangleTooClose ?d ?c \<and> rectangleTooClose ?c ?c
      \<and> \<not> rectangleTooClose ?c ?d"
    using tooClose_symmetric_reflexive [OF cornersComputer_pegs, of ?c ?d] sh by auto
  show ?thesis
    using exampleCircle_pegs cornersComputer_pegs circle rectangle by (intro conjI) blast+
qed

section \<open>Sampling and scoring\<close>

lemma clamp_range:
  fixes v w :: int
  assumes "0 < w"
  shows "0 \<le> clamp v 0 (w - 1)" and "clamp v 0 (w - 1) < w"
  using assms by (simp_all add: clamp_def)

lemma pixel_index_bound:
  fixes px py w h :: int
  assumes "0 \<le> px" "px < w" "0 \<le> py" "py < h"
  shows "0 \<le> 4 * (px + py * w)" and "4 * (px + py * w) + 2 < 4 * (w * h)"
proof -
  have w: "0 \<le> w" using assms by linarith
  have "0 \<le> py * w" using assms w by simp
  then have "0 \<le> px + py * w" using assms(1) by (rule_tac add_nonneg_nonneg)
  then show "0 \<le> 4 * (px + py * w)" by simp
  have "py * w \<le> (h - 1) * w" using assms w by (intro mult_right_mono) simp_all
  then have "px + py * w \<le> (w - 1) + (h - 1) * w" using assms by linarith
  also have "\<dots> = w * h - 1" by (simp add: algebra_simps)
  finally have "px + py * w \<le> w * h - 1" .
  moreover have "\<And>u v :: int. u \<le> v - 1 \<Longrightarrow> 4 * u + 2 < 4 * v" by linarith
  ultimately show "4 * (px + py * w) + 2 < 4 * (w * h)" by blast
qed

lemma sampleCanvasPixel_defined:
  assumes "wellFormedData cs d"
    and "0 \<le> px" "px < int (size_width cs)" "0 \<le> py" "py < int (size_height cs)"
  shows "\<exists>v. sampleCanvasPixel cs d px py = Some v"
proof -
  have len: "int (length d) = 4 * (int (size_width cs) * int (size_height cs))"
    using assms(1) by (simp add: wellFormedData_def)
  note b = pixel_index_bound [OF assms(2-5)]
  have "readByte d (4 * (px + py * int (size_width cs))) \<noteq> None"
    "readByte d (4 * (px + py * int (size_width cs)) + 1) \<noteq> None"
    "readByte d (4 * (px + py * int (size_width cs)) + 2) \<noteq> None"
    using b len by (simp_all add: readByte_def)
  then obtain r g b where
    "readByte d (4 * (px + py * int (size_width cs))) = Some r"
    "readByte d (4 * (px + py * int (size_width cs)) + 1) = Some g"
    "readByte d (4 * (px + py * int (size_width cs)) + 2) = Some b"
    by blast
  then have "sampleCanvasPixel cs d px py = Some ((r + g + b) / 3)"
    by (simp add: sampleCanvasPixel_def Let_def)
  then show ?thesis by blast
qed

lemma sampleCanvasData_defined:
  assumes "wellFormedData cs d"
  shows "\<exists>v. sampleCanvasData cs d coords = Some v"
proof -
  have w: "0 < int (size_width cs)" and h: "0 < int (size_height cs)"
    using assms by (simp_all add: wellFormedData_def)
  note cw = clamp_range [OF w] and ch = clamp_range [OF h]
  obtain tl tr bl br where
    "sampleCanvasPixel cs d (clamp \<lfloor>fst coords\<rfloor> 0 (int (size_width cs) - 1))
        (clamp \<lfloor>snd coords\<rfloor> 0 (int (size_height cs) - 1)) = Some tl"
    "sampleCanvasPixel cs d (clamp \<lceil>fst coords\<rceil> 0 (int (size_width cs) - 1))
        (clamp \<lfloor>snd coords\<rfloor> 0 (int (size_height cs) - 1)) = Some tr"
    "sampleCanvasPixel cs d (clamp \<lfloor>fst coords\<rfloor> 0 (int (size_width cs) - 1))
        (clamp \<lceil>snd coords\<rceil> 0 (int (size_height cs) - 1)) = Some bl"
    "sampleCanvasPixel cs d (clamp \<lceil>fst coords\<rceil> 0 (int (size_width cs) - 1))
        (clamp \<lceil>snd coords\<rceil> 0 (int (size_height cs) - 1)) = Some br"
    using sampleCanvasPixel_defined [OF assms cw ch] by metis
  then show ?thesis by (simp add: sampleCanvasData_def Let_def)
qed

text \<open>The samples of one candidate thread and what each adds to the sum.\<close>

lemma all_from_split:
  fixes P :: "nat \<Rightarrow> bool"
  assumes "i < n"
  shows "(\<forall>j. i \<le> j \<and> j < n \<longrightarrow> P j) \<longleftrightarrow> P i \<and> (\<forall>j. i + 1 \<le> j \<and> j < n \<longrightarrow> P j)"
proof
  assume a: "\<forall>j. i \<le> j \<and> j < n \<longrightarrow> P j"
  then have "P i" using assms by simp
  moreover have "\<forall>j. i + 1 \<le> j \<and> j < n \<longrightarrow> P j" using a by simp
  ultimately show "P i \<and> (\<forall>j. i + 1 \<le> j \<and> j < n \<longrightarrow> P j)" by simp
next
  assume b: "P i \<and> (\<forall>j. i + 1 \<le> j \<and> j < n \<longrightarrow> P j)"
  show "\<forall>j. i \<le> j \<and> j < n \<longrightarrow> P j"
  proof (intro allI impI)
    fix j assume j: "i \<le> j \<and> j < n"
    show "P j"
    proof (cases "j = i")
      case True then show ?thesis using b by simp
    next
      case False
      then have "i + 1 \<le> j" using j by simp
      then show ?thesis using b j by simp
    qed
  qed
qed

lemma sampleLoop_nan: "sampleLoop cs d peg1 dX dY nbSamples iSample None = None"
proof (induction cs d peg1 dX dY nbSamples iSample "None :: real option" rule: sampleLoop.induct)
  case (1 cs d peg1 dX dY nbSamples iSample)
  show ?case
  proof (cases "iSample < nbSamples")
    case True
    then show ?thesis
      using "1.hyps" [OF True refl refl refl refl refl]
      by (subst sampleLoop.simps) (simp add: Let_def nanAdd_def)
  next
    case False
    then show ?thesis by (subst sampleLoop.simps) simp
  qed
qed

lemma sampleLoop_sum:
  "sampleLoop cs d peg1 dX dY nbSamples iSample squaredError =
     (if \<forall>j. iSample \<le> j \<and> j < nbSamples \<longrightarrow>
           sampleCanvasData cs d (peg_x peg1 + dX * ((real j + 1) / (real nbSamples + 1)),
                                  peg_y peg1 + dY * ((real j + 1) / (real nbSamples + 1))) \<noteq> None
      then map_option (\<lambda>e. e + (\<Sum>j = iSample ..< nbSamples.
             127 - (the (sampleCanvasData cs d
                       (peg_x peg1 + dX * ((real j + 1) / (real nbSamples + 1)),
                        peg_y peg1 + dY * ((real j + 1) / (real nbSamples + 1))))
                    + 0.5 * LINE_OPACITY * 255))) squaredError
      else None)"
proof (induction cs d peg1 dX dY nbSamples iSample squaredError rule: sampleLoop.induct)
  case (1 cs d peg1 dX dY nbSamples iSample squaredError)
  define v where "v = (\<lambda>j. sampleCanvasData cs d
      (peg_x peg1 + dX * ((real j + 1) / (real nbSamples + 1)),
       peg_y peg1 + dY * ((real j + 1) / (real nbSamples + 1))))"
  define P where "P = (\<lambda>j. v j \<noteq> None)"
  define c where "c = (\<lambda>j. 127 - (the (v j) + 0.5 * LINE_OPACITY * 255))"
  have goal: "sampleLoop cs d peg1 dX dY nbSamples iSample squaredError =
     (if \<forall>j. iSample \<le> j \<and> j < nbSamples \<longrightarrow> P j
      then map_option (\<lambda>e. e + (\<Sum>j = iSample ..< nbSamples. c j)) squaredError
      else None)"
  proof (cases "iSample < nbSamples")
    case False
    have l: "sampleLoop cs d peg1 dX dY nbSamples iSample squaredError = squaredError"
      using False by (subst sampleLoop.simps) simp
    have a: "\<forall>j. iSample \<le> j \<and> j < nbSamples \<longrightarrow> P j" using False by auto
    have "map_option (\<lambda>e. e + (\<Sum>j = iSample ..< nbSamples. c j)) squaredError = squaredError"
      using False by (cases squaredError) simp_all
    then show ?thesis unfolding l using a by simp
  next
    case True
    define acc where "acc = nanAdd squaredError
       (map_option (\<lambda>x. 127 - x) (map_option (\<lambda>x. x + 0.5 * LINE_OPACITY * 255) (v iSample)))"
    have step: "sampleLoop cs d peg1 dX dY nbSamples iSample squaredError
        = sampleLoop cs d peg1 dX dY nbSamples (iSample + 1) acc"
      using True by (subst sampleLoop.simps) (simp add: Let_def acc_def v_def)
    have IH: "sampleLoop cs d peg1 dX dY nbSamples (iSample + 1) acc =
       (if \<forall>j. iSample + 1 \<le> j \<and> j < nbSamples \<longrightarrow> P j
        then map_option (\<lambda>e. e + (\<Sum>j = iSample + 1 ..< nbSamples. c j)) acc
        else None)"
      using "1.IH" [OF True refl refl refl refl refl]
      unfolding acc_def P_def c_def v_def .
    note split = all_from_split [OF True, of P]
    show ?thesis
    proof (cases "v iSample")
      case None
      have "acc = None" using None by (simp add: acc_def nanAdd_def split: option.splits)
      then have l: "sampleLoop cs d peg1 dX dY nbSamples iSample squaredError = None"
        unfolding step by (simp add: sampleLoop_nan)
      have "\<not> P iSample" using None by (simp add: P_def)
      then have "\<not> (\<forall>j. iSample \<le> j \<and> j < nbSamples \<longrightarrow> P j)" unfolding split by simp
      then show ?thesis unfolding l by (rule if_not_P [symmetric])
    next
      case (Some x)
      then have Pi: "P iSample" by (simp add: P_def)
      have ci: "c iSample = 127 - (x + 0.5 * LINE_OPACITY * 255)" using Some by (simp add: c_def)
      have sum: "(\<Sum>j = iSample ..< nbSamples. c j)
           = c iSample + (\<Sum>j = iSample + 1 ..< nbSamples. c j)"
        using True by (simp add: sum.atLeast_Suc_lessThan)
      have A: "(\<forall>j. iSample \<le> j \<and> j < nbSamples \<longrightarrow> P j)
          \<longleftrightarrow> (\<forall>j. iSample + 1 \<le> j \<and> j < nbSamples \<longrightarrow> P j)"
        unfolding split using Pi by simp
      show ?thesis
      proof (cases squaredError)
        case None
        have "acc = None" using None by (simp add: acc_def nanAdd_def)
        then have l: "sampleLoop cs d peg1 dX dY nbSamples iSample squaredError = None"
          unfolding step by (simp add: sampleLoop_nan)
        show ?thesis unfolding l using None by simp
      next
        case (Some e)
        have acc: "acc = Some (e + c iSample)"
          using Some \<open>v iSample = Some x\<close> by (simp add: acc_def nanAdd_def ci)
        have l: "sampleLoop cs d peg1 dX dY nbSamples iSample squaredError =
            (if \<forall>j. iSample + 1 \<le> j \<and> j < nbSamples \<longrightarrow> P j
             then Some (e + c iSample + (\<Sum>j = iSample + 1 ..< nbSamples. c j)) else None)"
          unfolding step acc using IH [unfolded acc] by simp
        show ?thesis
          unfolding l A sum by (simp add: Some add.assoc)
      qed
    qed
  qed
  show ?case using goal unfolding P_def c_def v_def .
qed

lemma greyCanvas_Suc: "greyCanvas (Suc n) = greyCanvas n @ [100, 100, 100, 255]"
  by (simp add: greyCanvas_def)

lemma greyCanvas_length: "length (greyCanvas n) = 4 * n"
  by (induction n) (simp_all add: greyCanvas_Suc, simp add: greyCanvas_def)

lemma greyCanvas_nth: "i < n \<Longrightarrow> k < 3 \<Longrightarrow> greyCanvas n ! (4 * i + k) = 100"
proof (induction n)
  case 0
  then show ?case by simp
next
  case (Suc n)
  show ?case
  proof (cases "i < n")
    case True
    then have "4 * i + k < length (greyCanvas n)" using Suc.prems by (simp add: greyCanvas_length)
    then show ?thesis using Suc.IH [OF True Suc.prems(2)] by (simp add: greyCanvas_Suc nth_append)
  next
    case False
    then have i: "i = n" using Suc.prems by simp
    have "k = 0 \<or> k = 1 \<or> k = 2" using Suc.prems by linarith
    then show ?thesis using i
      by (auto simp: greyCanvas_Suc nth_append greyCanvas_length)
  qed
qed

lemma readByte_grey:
  assumes "0 \<le> u" and "u < int n" and "k < 3"
  shows "readByte (greyCanvas n) (4 * u + int k) = Some 100"
proof -
  have n: "nat (4 * u + int k) = 4 * nat u + k" using assms by linarith
  have "nat u < n" using assms by linarith
  then have "greyCanvas n ! (4 * nat u + k) = 100" using assms(3) by (rule greyCanvas_nth)
  moreover have "0 \<le> 4 * u + int k" "4 * u + int k < int (length (greyCanvas n))"
    using assms by (simp_all add: greyCanvas_length)
  ultimately show ?thesis by (simp add: readByte_def n)
qed

lemma sampleCanvasPixel_grey:
  assumes "0 \<le> px" "px < int w" "0 \<le> py" "py < int h"
  shows "sampleCanvasPixel \<lparr>size_width = w, size_height = h\<rparr> (greyCanvas (w * h)) px py = Some 100"
proof -
  note b = pixel_index_bound [OF assms]
  have u0: "0 \<le> px + py * int w" using b(1) by simp
  have u1: "px + py * int w < int (w * h)" using b(2) by simp
  have "readByte (greyCanvas (w * h)) (4 * (px + py * int w) + int 0) = Some 100"
    "readByte (greyCanvas (w * h)) (4 * (px + py * int w) + int 1) = Some 100"
    "readByte (greyCanvas (w * h)) (4 * (px + py * int w) + int 2) = Some 100"
    by (rule readByte_grey [OF u0 u1], simp)+
  then show ?thesis by (simp add: sampleCanvasPixel_def Let_def)
qed

lemma sampleCanvasData_grey:
  assumes "0 < w" and "0 < h"
  shows "sampleCanvasData \<lparr>size_width = w, size_height = h\<rparr> (greyCanvas (w * h)) coords = Some 100"
proof -
  have w: "0 < int w" and h: "0 < int h" using assms by simp_all
  note cw = clamp_range [OF w] and ch = clamp_range [OF h]
  have "mix 100 100 (rem1 (fst coords)) = 100" "mix 100 100 (rem1 (snd coords)) = 100"
    by (simp_all add: mix_def algebra_simps)
  then show ?thesis
    by (simp add: sampleCanvasData_def Let_def sampleCanvasPixel_grey [OF cw ch])
qed

lemma constant_mean: "0 < n \<Longrightarrow> (\<Sum>i < n. c) / real n = (c :: real)"
  by simp

section \<open>Accepted pairs are apart\<close>

lemma distance_pos_iff:
  fixes a b :: peg
  shows "0 < sqrt ((peg_x b - peg_x a)\<^sup>2 + (peg_y b - peg_y a)\<^sup>2)
     \<longleftrightarrow> peg_x a \<noteq> peg_x b \<or> peg_y a \<noteq> peg_y b"
  by (auto simp: sum_power2_gt_zero_iff)

lemma circlePegs_elem:
  assumes "circlePegs spacing width height = Some ps" and "p \<in> set ps"
  shows "\<exists>t. 0 \<le> t \<and> t < 2 * pi
           \<and> p = \<lparr>peg_x = 0.5 * real width * (1 + cos t),
                   peg_y = 0.5 * real height * (1 + sin t), peg_angle = Some t\<rparr>"
proof -
  obtain n where n: "ceilBound (0.5 * TWO_PI * real (max width height)) spacing = Some n"
    using assms(1) by (auto simp: circlePegs_def Let_def split: option.splits)
  then have ps: "ps = map (\<lambda>iPeg.
        \<lparr>peg_x = 0.5 * real width * (1 + cos (real iPeg * (TWO_PI / real_of_int n))),
         peg_y = 0.5 * real height * (1 + sin (real iPeg * (TWO_PI / real_of_int n))),
         peg_angle = Some (real iPeg * (TWO_PI / real_of_int n))\<rparr>) [0 ..< nat n]"
    using assms(1) by (simp add: circlePegs_def Let_def)
  obtain i where i: "i < nat n"
    and p: "p = \<lparr>peg_x = 0.5 * real width * (1 + cos (real i * (TWO_PI / real_of_int n))),
         peg_y = 0.5 * real height * (1 + sin (real i * (TWO_PI / real_of_int n))),
         peg_angle = Some (real i * (TWO_PI / real_of_int n))\<rparr>"
    using assms(2) unfolding ps by auto
  let ?t = "real i * (TWO_PI / real_of_int n)"
  have npos: "0 < real_of_int n" using i by linarith
  have "real i < real_of_int n" using i by linarith
  then have "real i / real_of_int n < 1" using npos by simp
  then have "real i / real_of_int n * (2 * pi) < 1 * (2 * pi)"
    by (intro mult_strict_right_mono) simp_all
  then have lt: "?t < 2 * pi" by (simp add: TWO_PI_def)
  have ge: "0 \<le> ?t" using npos by (simp add: TWO_PI_def)
  show ?thesis using ge lt p by blast
qed

lemma same_point_same_angle:
  assumes "0 \<le> ta" "ta < 2 * pi" "0 \<le> tb" "tb < 2 * pi"
    and "cos ta = cos tb" and "sin ta = sin tb"
  shows "ta = tb"
proof -
  have "cos (ta - tb) = cos tb * cos tb + sin tb * sin tb"
    by (simp add: cos_diff assms(5,6))
  also have "\<dots> = 1" using sin_cos_squared_add3 [of tb] by (simp add: add.commute)
  finally obtain k :: int where k: "ta - tb = real_of_int k * 2 * pi"
    using cos_one_2pi_int by blast
  have "\<bar>ta - tb\<bar> < 2 * pi" using assms(1-4) by linarith
  then have "\<bar>real_of_int k\<bar> * (2 * pi) < 1 * (2 * pi)"
    unfolding k by (simp add: abs_mult)
  moreover have "0 < 2 * pi" by simp
  ultimately have "\<bar>real_of_int k\<bar> < 1" by (simp only: mult_less_cancel_right_pos)
  then have "k = 0" by linarith
  then show ?thesis using k by simp
qed

lemma circle_apart:
  assumes "circlePegs spacing width height = Some ps" and "0 < width" and "0 < height"
    and "a \<in> set ps" and "b \<in> set ps" and "\<not> circleTooClose a b"
  shows "peg_x a \<noteq> peg_x b \<or> peg_y a \<noteq> peg_y b"
proof (rule ccontr)
  assume "\<not> (peg_x a \<noteq> peg_x b \<or> peg_y a \<noteq> peg_y b)"
  then have eq: "peg_x a = peg_x b" "peg_y a = peg_y b" by simp_all
  obtain ta where ta: "0 \<le> ta" "ta < 2 * pi"
    "a = \<lparr>peg_x = 0.5 * real width * (1 + cos ta),
          peg_y = 0.5 * real height * (1 + sin ta), peg_angle = Some ta\<rparr>"
    using circlePegs_elem [OF assms(1,4)] by blast
  obtain tb where tb: "0 \<le> tb" "tb < 2 * pi"
    "b = \<lparr>peg_x = 0.5 * real width * (1 + cos tb),
          peg_y = 0.5 * real height * (1 + sin tb), peg_angle = Some tb\<rparr>"
    using circlePegs_elem [OF assms(1,5)] by blast
  have "cos ta = cos tb" using eq(1) assms(2) unfolding ta(3) tb(3) by simp
  moreover have "sin ta = sin tb" using eq(2) assms(3) unfolding ta(3) tb(3) by simp
  ultimately have "ta = tb" using same_point_same_angle ta(1,2) tb(1,2) by blast
  then have "circleTooClose a b"
    unfolding ta(3) tb(3) by (simp add: circleTooClose_def TWO_PI_def)
  then show False using assms(6) by simp
qed

lemma threadPotential_defined:
  assumes "wellFormedData cs d"
    and "0 < sqrt ((peg_x b - peg_x a)\<^sup>2 + (peg_y b - peg_y a)\<^sup>2)"
  shows "\<exists>v. threadPotential cs d a b = Some v"
proof -
  let ?dX = "peg_x b - peg_x a" and ?dY = "peg_y b - peg_y a"
  let ?N = "nat \<lceil>sqrt (?dX * ?dX + ?dY * ?dY)\<rceil>"
  have sq: "?dX * ?dX + ?dY * ?dY = ?dX\<^sup>2 + ?dY\<^sup>2" by (simp add: power2_eq_square)
  have N: "?N \<noteq> 0" using assms(2) unfolding sq by linarith
  have "\<forall>j. 0 \<le> j \<and> j < ?N \<longrightarrow>
      sampleCanvasData cs d (peg_x a + ?dX * ((real j + 1) / (real ?N + 1)),
                             peg_y a + ?dY * ((real j + 1) / (real ?N + 1))) \<noteq> None"
    using sampleCanvasData_defined [OF assms(1)] by fastforce
  then have "\<exists>e. sampleLoop cs d a ?dX ?dY ?N 0 (Some 0) = Some e"
    unfolding sampleLoop_sum by simp
  then obtain e where e: "sampleLoop cs d a ?dX ?dY ?N 0 (Some 0) = Some e" by blast
  have "threadPotential cs d a b = Some (e / real ?N)"
    unfolding threadPotential_def Let_def using N e by simp
  then show ?thesis by blast
qed

text \<open>
  Claim C6. For a layout that \<^verbatim>\<open>computePegs\<close> builds on a canvas of at least one pixel, with
  the predicate it stores, every pair of pegs that the predicate accepts (does not find too
  close) is at a strictly positive Euclidean distance, so the sample count \<open>\<lceil>d\<rceil>\<close> is at least
  1 and the score of \<^verbatim>\<open>computeThreadPotential\<close> is a number and not \<^verbatim>\<open>NaN\<close>, on every object
  whose readback holds four bytes for each pixel: the division is never by zero.
\<close>

theorem accepted_pair_score_defined:
  assumes "computePegs s = Some (ps, s')"
    and "0 < size_width (hiddenCanvas s)" and "0 < size_height (hiddenCanvas s)"
    and "a \<in> set ps" and "b \<in> set ps" and "\<not> arePegsTooClose s' a b"
  shows "0 < sqrt ((peg_x b - peg_x a)\<^sup>2 + (peg_y b - peg_y a)\<^sup>2)
     \<and> 1 \<le> \<lceil>sqrt ((peg_x b - peg_x a)\<^sup>2 + (peg_y b - peg_y a)\<^sup>2)\<rceil>
     \<and> (\<forall>t. wellFormedData (hiddenCanvas t) (cpuData t) \<longrightarrow>
            (\<exists>v. fst (computeThreadPotential t a b) = Some v))"
proof -
  have apart: "peg_x a \<noteq> peg_x b \<or> peg_y a \<noteq> peg_y b"
    using computePegs_cases [OF assms(1)]
  proof (elim disjE conjE)
    assume "s' = s\<lparr>arePegsTooClose := rectangleTooClose\<rparr>"
    then show ?thesis using assms(6) by (simp add: rectangleTooClose_def)
  next
    assume s': "s' = s\<lparr>arePegsTooClose := circleTooClose\<rparr>"
      and ps: "circlePegs (pegsSpacing s) (size_width (hiddenCanvas s))
                 (size_height (hiddenCanvas s)) = Some ps"
    have "\<not> circleTooClose a b" using assms(6) s' by simp
    then show ?thesis by (rule circle_apart [OF ps assms(2,3,4,5)])
  qed
  then have d: "0 < sqrt ((peg_x b - peg_x a)\<^sup>2 + (peg_y b - peg_y a)\<^sup>2)"
    by (simp only: distance_pos_iff)
  then have n: "1 \<le> \<lceil>sqrt ((peg_x b - peg_x a)\<^sup>2 + (peg_y b - peg_y a)\<^sup>2)\<rceil>" by linarith
  have sc: "\<forall>t. wellFormedData (hiddenCanvas t) (cpuData t) \<longrightarrow>
            (\<exists>v. fst (computeThreadPotential t a b) = Some v)"
    using threadPotential_defined [OF _ d] by (simp add: computeThreadPotential_def)
  show ?thesis using d n sc by (intro conjI)
qed

theorem accepted_pair_score_defined_witness:
  "computePegs exampleCircle =
     Some ([\<lparr>peg_x = 256, peg_y = 96, peg_angle = Some 0\<rparr>,
            \<lparr>peg_x = 0, peg_y = 96, peg_angle = Some pi\<rparr>],
           exampleCircle\<lparr>arePegsTooClose := circleTooClose\<rparr>)
   \<and> \<not> circleTooClose \<lparr>peg_x = 256, peg_y = 96, peg_angle = Some 0\<rparr>
                        \<lparr>peg_x = 0, peg_y = 96, peg_angle = Some pi\<rparr>
   \<and> wellFormedData (hiddenCanvas exampleCircle) (cpuData exampleCircle)
   \<and> 0 < sqrt ((0 - 256 :: real)\<^sup>2 + (96 - 96)\<^sup>2)
   \<and> (\<exists>v. fst (computeThreadPotential exampleCircle
                  \<lparr>peg_x = 256, peg_y = 96, peg_angle = Some 0\<rparr>
                  \<lparr>peg_x = 0, peg_y = 96, peg_angle = Some pi\<rparr>) = Some v)"
proof -
  let ?a = "\<lparr>peg_x = 256, peg_y = 96, peg_angle = Some 0\<rparr>"
  let ?b = "\<lparr>peg_x = 0, peg_y = 96, peg_angle = Some pi\<rparr>"
  have sz: "0 < size_width (hiddenCanvas exampleCircle)"
    "0 < size_height (hiddenCanvas exampleCircle)"
    by (simp_all add: exampleCircle_def)
  have "\<not> pi \<le> pi / 8" using pi_gt_zero by linarith
  then have far: "\<not> circleTooClose ?a ?b" by (simp add: circleTooClose_def TWO_PI_def)
  then have far': "\<not> arePegsTooClose (exampleCircle\<lparr>arePegsTooClose := circleTooClose\<rparr>) ?a ?b"
    by simp
  have wf: "wellFormedData (hiddenCanvas exampleCircle) (cpuData exampleCircle)"
    by (simp add: wellFormedData_def exampleCircle_def cpuData_def greyCanvas_length)
  have "\<exists>v. fst (computeThreadPotential exampleCircle ?a ?b) = Some v"
    using accepted_pair_score_defined [OF exampleCircle_pegs sz _ _ far'] wf by simp
  then show ?thesis using far wf by (simp add: exampleCircle_pegs)
qed

section \<open>A planner to run\<close>

lemma toUint8Clamped_100: "toUint8Clamped (computeAdjustedValue False 200 200 200) = 100"
  by (simp add: toUint8Clamped_def computeAdjustedValue_def)

lemma resetHiddenCanvas_example:
  assumes "sourceImage s = \<lparr>size_width = 512, size_height = 512\<rparr>"
  shows "resetHiddenCanvas exampleParameters exampleBrowser s =
     s\<lparr>hiddenCanvas := \<lparr>size_width = 256, size_height = 256\<rparr>,
       hiddenCanvasContext := greyCanvas (256 * 256)\<rparr>"
  using assms
  by (simp add: resetHiddenCanvas_def computeBestSize_square HIDDEN_CANVAS_SIZE_def Let_def
      exampleBrowser_def exampleParameters_def toUint8Clamped_100 greyCanvas_def)

lemma newThreadComputer_example:
  "newThreadComputer exampleParameters exampleBrowser \<lparr>size_width = 512, size_height = 512\<rparr>
     RECTANGLE 256 = Returns () cornersComputer"
  by (simp add: newThreadComputer_def Let_def resetHiddenCanvas_example computePegs_def
      rectanglePegs_corners cornersComputer_def)

lemma threadPotential_uniform:
  assumes "\<And>c. sampleCanvasData cs d c = Some v"
    and "peg_x a \<noteq> peg_x b \<or> peg_y a \<noteq> peg_y b"
  shows "threadPotential cs d a b = Some (127 - (v + 0.5 * LINE_OPACITY * 255))"
proof -
  let ?dX = "peg_x b - peg_x a" and ?dY = "peg_y b - peg_y a"
  let ?N = "nat \<lceil>sqrt (?dX * ?dX + ?dY * ?dY)\<rceil>"
  have sq: "?dX * ?dX + ?dY * ?dY = ?dX\<^sup>2 + ?dY\<^sup>2" by (simp add: power2_eq_square)
  have "0 < sqrt (?dX\<^sup>2 + ?dY\<^sup>2)" using assms(2) by (simp only: distance_pos_iff)
  then have N: "0 < ?N" unfolding sq by linarith
  have "sampleLoop cs d a ?dX ?dY ?N 0 (Some 0)
      = Some (\<Sum>j = 0 ..< ?N. 127 - (v + 0.5 * LINE_OPACITY * 255))"
    unfolding sampleLoop_sum assms(1) by simp
  also have "{0 ..< ?N} = {..< ?N}" by auto
  finally have "threadPotential cs d a b
      = Some ((\<Sum>j < ?N. 127 - (v + 0.5 * LINE_OPACITY * 255)) / real ?N)"
    unfolding threadPotential_def Let_def using N by simp
  then show ?thesis by (simp only: constant_mean [OF N])
qed

lemma computeThreadPotential_grey:
  assumes "cpuData t = greyCanvas (size_width (hiddenCanvas t) * size_height (hiddenCanvas t))"
    and "0 < size_width (hiddenCanvas t)" and "0 < size_height (hiddenCanvas t)"
    and "peg_x a \<noteq> peg_x b \<or> peg_y a \<noteq> peg_y b"
  shows "computeThreadPotential t a b =
           (Some (1884 / 100), t\<lparr>hiddenCanvasData := Some (cpuData t)\<rparr>)"
proof -
  obtain w h where wh: "hiddenCanvas t = \<lparr>size_width = w, size_height = h\<rparr>"
    by (cases "hiddenCanvas t") simp
  have "\<And>c. sampleCanvasData (hiddenCanvas t) (cpuData t) c = Some 100"
    using sampleCanvasData_grey [of w h] assms(2,3) unfolding assms(1) wh by simp
  then have "threadPotential (hiddenCanvas t) (cpuData t) a b
      = Some (127 - (100 + 0.5 * LINE_OPACITY * 255))"
    using assms(4) by (rule threadPotential_uniform)
  then show ?thesis
    by (simp add: computeThreadPotential_def upload_eq LINE_OPACITY_def)
qed

lemma cornersComputer_start:
  "computeBestStartingThread 0 (cornersComputer\<lparr>targetNbSegments := n\<rparr>) =
     (Some (\<lparr>peg_x = 0, peg_y = 0, peg_angle = None\<rparr>,
            \<lparr>peg_x = 255, peg_y = 255, peg_angle = None\<rparr>),
      cornersComputer\<lparr>targetNbSegments := n,
                       hiddenCanvasData := Some (greyCanvas (256 * 256))\<rparr>)"
  by (simp add: computeBestStartingThread_def cornersComputer_def rectangleTooClose_def
      computeThreadPotential_grey cpuData_def keepBest_def MIN_SAFE_NUMBER_def randomItem_def)

lemma cornersComputer_step_target:
  "computeThread exampleBrowser 0 (cornersComputer\<lparr>targetNbSegments := n\<rparr>) =
     Returns () (cornersComputer\<lparr>targetNbSegments := n, threadPegs :=
        [Some \<lparr>peg_x = 0, peg_y = 0, peg_angle = None\<rparr>,
         Some \<lparr>peg_x = 255, peg_y = 255, peg_angle = None\<rparr>]\<rparr>)"
  by (simp add: computeThread_def cornersComputer_start drawThreadOnHiddenCanvas_def
      exampleBrowser_def Let_def)
    (simp add: cornersComputer_def)

lemma cornersComputer_step:
  "computeThread exampleBrowser 0 cornersComputer =
     Returns () (cornersComputer\<lparr>threadPegs :=
        [Some \<lparr>peg_x = 0, peg_y = 0, peg_angle = None\<rparr>,
         Some \<lparr>peg_x = 255, peg_y = 255, peg_angle = None\<rparr>]\<rparr>)"
proof -
  have "cornersComputer\<lparr>targetNbSegments := 0\<rparr> = cornersComputer"
    by (simp add: cornersComputer_def)
  then show ?thesis using cornersComputer_step_target [of 0] by simp
qed

section \<open>How the path grows\<close>

text \<open>
  Claim C3, as amended. After every planning step (\<^verbatim>\<open>computeThread\<close>) that returns, the segment
  count \<^verbatim>\<open>nbSegments\<close> has increased by exactly 1; the length of the path has increased by
  exactly 1 when the path was not empty before the step, and by exactly 2 (both pegs of the
  starting thread) at the first step, taken from an empty path.
\<close>

theorem step_adds_one_segment:
  assumes "computeThread env r s = Returns u s'"
  shows "nbSegments s' = nbSegments s + 1
     \<and> length (threadPegs s') = length (threadPegs s) + (if threadPegs s = [] then 2 else 1)"
proof (cases "threadPegs s = []")
  case True
  obtain p1 p2 where "threadPegs s' = [Some p1, Some p2]"
    using computeThread_first(1) [OF True assms] by blast
  then show ?thesis using True computeThread_nbSegments(1) [OF assms] by simp
next
  case False
  obtain q where "threadPegs s' = threadPegs s @ [Some q]"
    using computeThread_next(1) [OF False assms] by blast
  then show ?thesis using False computeThread_nbSegments(1) [OF assms] by simp
qed

theorem step_adds_one_segment_witness:
  "computeThread exampleBrowser 0 cornersComputer =
     Returns () (cornersComputer\<lparr>threadPegs :=
        [Some \<lparr>peg_x = 0, peg_y = 0, peg_angle = None\<rparr>,
         Some \<lparr>peg_x = 255, peg_y = 255, peg_angle = None\<rparr>]\<rparr>)
   \<and> nbSegments cornersComputer = 0
   \<and> nbSegments (cornersComputer\<lparr>threadPegs :=
        [Some \<lparr>peg_x = 0, peg_y = 0, peg_angle = None\<rparr>,
         Some \<lparr>peg_x = 255, peg_y = 255, peg_angle = None\<rparr>]\<rparr>) = 1
   \<and> length (threadPegs (cornersComputer\<lparr>threadPegs :=
        [Some \<lparr>peg_x = 0, peg_y = 0, peg_angle = None\<rparr>,
         Some \<lparr>peg_x = 255, peg_y = 255, peg_angle = None\<rparr>]\<rparr>))
       = length (threadPegs cornersComputer) + 2"
proof -
  have e: "threadPegs cornersComputer = []" by (simp add: cornersComputer_def)
  then have n: "nbSegments cornersComputer = 0" by (simp add: nbSegments_def)
  show ?thesis
    using step_adds_one_segment [OF cornersComputer_step] e n
    by (simp add: cornersComputer_step)
qed

theorem first_step_adds_two_pegs_counterexample:
  "computeThread exampleBrowser 0 cornersComputer =
     Returns () (cornersComputer\<lparr>threadPegs :=
        [Some \<lparr>peg_x = 0, peg_y = 0, peg_angle = None\<rparr>,
         Some \<lparr>peg_x = 255, peg_y = 255, peg_angle = None\<rparr>]\<rparr>)
   \<and> length (threadPegs cornersComputer) = 0
   \<and> length (threadPegs (cornersComputer\<lparr>threadPegs :=
        [Some \<lparr>peg_x = 0, peg_y = 0, peg_angle = None\<rparr>,
         Some \<lparr>peg_x = 255, peg_y = 255, peg_angle = None\<rparr>]\<rparr>))
       \<noteq> length (threadPegs cornersComputer) + 1"
  by (simp add: cornersComputer_step) (simp add: cornersComputer_def)

lemma computeThread_TypeError:
  assumes "computeThread env r s = TypeError s'"
  shows "threadPegs s' = threadPegs s \<or> (threadPegs s \<noteq> [] \<and> (\<exists>q. threadPegs s' = threadPegs s @ [q]))"
proof (cases "threadPegs s = []")
  case True
  obtain c where c: "snd (computeBestStartingThread r s) = s\<lparr>hiddenCanvasData := c\<rparr>"
    using computeBestStartingThread_frame by blast
  have "s' = s\<lparr>hiddenCanvasData := c\<rparr>"
    using assms True c
    by (cases "computeBestStartingThread r s"; cases "fst (computeBestStartingThread r s)")
      (auto simp: computeThread_def drawThreadOnHiddenCanvas_def Let_def)
  then show ?thesis by simp
next
  case False
  show ?thesis
  proof (cases "computeBestNextPeg r s (last (threadPegs s))")
    case (Returns nextPeg s1)
    then obtain c where c: "s1 = s\<lparr>hiddenCanvasData := c\<rparr>"
      using computeBestNextPeg_frame by blast
    have "s' = s1\<lparr>threadPegs := threadPegs s1 @ [nextPeg]\<rparr>"
      using assms False Returns
      by (auto simp: computeThread_def drawThreadOnHiddenCanvas_def Let_def
          split: option.splits)
    then show ?thesis using c False by simp
  next
    case (TypeError s1)
    then obtain c where c: "s1 = s\<lparr>hiddenCanvasData := c\<rparr>"
      using computeBestNextPeg_frame by blast
    have "s' = s1" using assms False TypeError by (simp add: computeThread_def Let_def)
    then show ?thesis using c by simp
  next
    case Hangs
    then show ?thesis using computeBestNextPeg_not_Hangs by blast
  qed
qed

lemma computeThread_length_not_one:
  assumes "length (threadPegs s) \<noteq> 1"
    and "computeThread env r s = Returns u s' \<or> computeThread env r s = TypeError s'"
  shows "length (threadPegs s') \<noteq> 1"
  using assms(2)
proof
  assume a: "computeThread env r s = Returns u s'"
  show ?thesis
    using computeThread_first(1) [OF _ a] computeThread_next(1) [OF _ a] assms(1)
    by (cases "threadPegs s = []") auto
next
  assume a: "computeThread env r s = TypeError s'"
  show ?thesis using computeThread_TypeError [OF a] assms(1) by (cases "threadPegs s") auto
qed

lemma growLoop_stop:
  assumes "\<not> (nbSegments s < targetNbSegments s
              \<and> env_now env (k + 1) - start < maxMillisecondsTaken)"
  shows "growLoop env maxMillisecondsTaken start k s
           = Returns (nbSegments s \<ge> targetNbSegments s) s"
  by (subst growLoop.simps) (rule if_not_P [OF assms])

lemma growLoop_step:
  assumes "nbSegments s < targetNbSegments s
             \<and> env_now env (k + 1) - start < maxMillisecondsTaken"
  shows "growLoop env maxMillisecondsTaken start k s =
           (case computeThread env (env_random env k) s of
              Returns u s' \<Rightarrow> growLoop env maxMillisecondsTaken start (k + 1) s'
            | TypeError s' \<Rightarrow> TypeError s'
            | Hangs \<Rightarrow> Hangs)"
  by (subst growLoop.simps) (rule if_P [OF assms])

lemma growLoop_length_not_one:
  "length (threadPegs s) \<noteq> 1 \<Longrightarrow>
   growLoop env maxMillisecondsTaken start k s = Returns b s'
     \<or> growLoop env maxMillisecondsTaken start k s = TypeError s' \<Longrightarrow>
   length (threadPegs s') \<noteq> 1"
proof (induction env maxMillisecondsTaken start k s rule: growLoop.induct)
  case (1 env maxMillisecondsTaken start k s)
  show ?case
  proof (cases "nbSegments s < targetNbSegments s
                \<and> env_now env (k + 1) - start < maxMillisecondsTaken")
    case False
    then have "growLoop env maxMillisecondsTaken start k s
        = Returns (nbSegments s \<ge> targetNbSegments s) s"
      by (rule growLoop_stop)
    then show ?thesis using "1.prems" by auto
  next
    case True
    show ?thesis
    proof (cases "computeThread env (env_random env k) s")
      case (Returns u s1)
      have l: "length (threadPegs s1) \<noteq> 1"
        using computeThread_length_not_one [OF "1.prems"(1)] Returns by blast
      have "growLoop env maxMillisecondsTaken start k s
          = growLoop env maxMillisecondsTaken start (k + 1) s1"
        using Returns by (simp add: growLoop_step [OF True])
      then show ?thesis using "1.IH" [OF True Returns l] "1.prems"(2) by simp
    next
      case (TypeError s1)
      have l: "length (threadPegs s1) \<noteq> 1"
        using computeThread_length_not_one [OF "1.prems"(1)] TypeError by blast
      have "growLoop env maxMillisecondsTaken start k s = TypeError s1"
        using TypeError by (simp add: growLoop_step [OF True])
      then show ?thesis using l "1.prems"(2) by auto
    next
      case Hangs
      have "growLoop env maxMillisecondsTaken start k s = Hangs"
        using Hangs by (simp add: growLoop_step [OF True])
      then show ?thesis using "1.prems"(2) by simp
    qed
  qed
qed

lemma reset_Returns:
  assumes "reset P env s = Returns u s'"
  shows "threadPegs s' = []" and "targetNbSegments s' = P_nbLines P"
    and "pegsShape s' = P_shape P" and "pegsSpacing s' = P_pegsSpacing P"
  using assms
  by (auto simp: reset_def Let_def resetHiddenCanvas_def computePegs_def
      split: option.splits if_splits)

lemma reset_not_TypeError: "reset P env s \<noteq> TypeError s'"
  by (auto simp: reset_def Let_def split: option.splits)

lemma newThreadComputer_Returns:
  assumes "newThreadComputer P env img sh sp = Returns u s"
  shows "threadPegs s = []" and "targetNbSegments s = 0"
  using assms
  by (auto simp: newThreadComputer_def Let_def resetHiddenCanvas_def computePegs_def
      split: option.splits if_splits)

section \<open>The time-sliced run at and over its target\<close>

lemma nbSegments_target [simp]: "nbSegments (s\<lparr>targetNbSegments := n\<rparr>) = nbSegments s"
  by (simp add: nbSegments_def)

lemma computeNextThreads_corners:
  "computeNextThreads exampleBrowser exampleParameters 10 cornersComputer =
     Returns True (cornersComputer\<lparr>targetNbSegments := 1, threadPegs :=
        [Some \<lparr>peg_x = 0, peg_y = 0, peg_angle = None\<rparr>,
         Some \<lparr>peg_x = 255, peg_y = 255, peg_angle = None\<rparr>]\<rparr>)"
proof -
  let ?s0 = "cornersComputer\<lparr>targetNbSegments := 1\<rparr>"
  let ?s1 = "cornersComputer\<lparr>targetNbSegments := 1, threadPegs :=
        [Some \<lparr>peg_x = 0, peg_y = 0, peg_angle = None\<rparr>,
         Some \<lparr>peg_x = 255, peg_y = 255, peg_angle = None\<rparr>]\<rparr>"
  have n0: "nbSegments cornersComputer = 0"
    by (simp add: nbSegments_def cornersComputer_def)
  have n1: "nbSegments ?s1 = 1" by (simp add: nbSegments_def)
  have c0: "nbSegments ?s0 < targetNbSegments ?s0
      \<and> env_now exampleBrowser (0 + 1) - env_now exampleBrowser 0 < 10"
    by (simp add: n0 exampleBrowser_def)
  have c1: "\<not> (nbSegments ?s1 < targetNbSegments ?s1
      \<and> env_now exampleBrowser (0 + 1 + 1) - env_now exampleBrowser 0 < 10)"
    by (simp add: nbSegments_def)
  have r: "env_random exampleBrowser 0 = 0" by (simp add: exampleBrowser_def)
  have "growLoop exampleBrowser 10 (env_now exampleBrowser 0) 0 ?s0
      = growLoop exampleBrowser 10 (env_now exampleBrowser 0) (0 + 1) ?s1"
    by (simp only: growLoop_step [OF c0] r cornersComputer_step_target outcome.case)
  also have "\<dots> = Returns True ?s1"
    by (simp only: growLoop_stop [OF c1]) (simp add: nbSegments_def)
  finally show ?thesis
    by (simp add: computeNextThreads_def Let_def n0 exampleParameters_def)
qed

lemma oneSegmentComputer_reached:
  "computeNextThreads exampleBrowser (exampleParameters\<lparr>P_nbLines := 3\<rparr>) 2 cornersComputer
     = Returns False oneSegmentComputer"
proof -
  let ?s0 = "cornersComputer\<lparr>targetNbSegments := 3\<rparr>"
  let ?s1 = "cornersComputer\<lparr>targetNbSegments := 3, threadPegs :=
        [Some \<lparr>peg_x = 0, peg_y = 0, peg_angle = None\<rparr>,
         Some \<lparr>peg_x = 255, peg_y = 255, peg_angle = None\<rparr>]\<rparr>"
  have n0: "nbSegments cornersComputer = 0"
    by (simp add: nbSegments_def cornersComputer_def)
  have c0: "nbSegments ?s0 < targetNbSegments ?s0
      \<and> env_now exampleBrowser (0 + 1) - env_now exampleBrowser 0 < 2"
    by (simp add: n0 exampleBrowser_def)
  have c1: "\<not> (nbSegments ?s1 < targetNbSegments ?s1
      \<and> env_now exampleBrowser (0 + 1 + 1) - env_now exampleBrowser 0 < 2)"
    by (simp add: exampleBrowser_def)
  have r: "env_random exampleBrowser 0 = 0" by (simp add: exampleBrowser_def)
  have "growLoop exampleBrowser 2 (env_now exampleBrowser 0) 0 ?s0
      = growLoop exampleBrowser 2 (env_now exampleBrowser 0) (0 + 1) ?s1"
    by (simp only: growLoop_step [OF c0] r cornersComputer_step_target outcome.case)
  also have "\<dots> = Returns False ?s1"
    by (simp only: growLoop_stop [OF c1]) (simp add: nbSegments_def)
  finally show ?thesis
    by (simp add: computeNextThreads_def Let_def n0 exampleParameters_def oneSegmentComputer_def)
qed

text \<open>
  Claim C10. The path has never exactly one peg between public operations: the constructor
  and \<^verbatim>\<open>reset\<close> leave it empty; a step that returns appends both pegs of the starting thread
  to an empty path and exactly one peg to any other; and \<^verbatim>\<open>computeNextThreads\<close>, started on a
  path whose length is not 1, leaves a path whose length is not 1, whether it returns or
  throws.
\<close>

theorem path_length_never_one:
  "(newThreadComputer P env img sh sp = Returns u s0 \<longrightarrow> length (threadPegs s0) = 0)
   \<and> (reset P env s = Returns u s1 \<longrightarrow> length (threadPegs s1) = 0)
   \<and> (computeThread env r s = Returns u s2 \<longrightarrow>
        (if threadPegs s = []
         then \<exists>p1 p2. fst (computeBestStartingThread r s) = Some (p1, p2)
                      \<and> threadPegs s2 = [Some p1, Some p2]
         else \<exists>q. threadPegs s2 = threadPegs s @ [Some q]))
   \<and> (length (threadPegs s) \<noteq> 1
        \<and> (computeNextThreads env P maxMillisecondsTaken s = Returns b s3
           \<or> computeNextThreads env P maxMillisecondsTaken s = TypeError s3)
       \<longrightarrow> length (threadPegs s3) \<noteq> 1)"
proof (intro conjI impI)
  assume "newThreadComputer P env img sh sp = Returns u s0"
  then show "length (threadPegs s0) = 0" using newThreadComputer_Returns(1) by simp
next
  assume "reset P env s = Returns u s1"
  then show "length (threadPegs s1) = 0" using reset_Returns(1) by simp
next
  assume a: "computeThread env r s = Returns u s2"
  show "if threadPegs s = []
         then \<exists>p1 p2. fst (computeBestStartingThread r s) = Some (p1, p2)
                      \<and> threadPegs s2 = [Some p1, Some p2]
         else \<exists>q. threadPegs s2 = threadPegs s @ [Some q]"
    using computeThread_first(4) [OF _ a] computeThread_next(1) [OF _ a] by simp
next
  assume a: "length (threadPegs s) \<noteq> 1
        \<and> (computeNextThreads env P maxMillisecondsTaken s = Returns b s3
           \<or> computeNextThreads env P maxMillisecondsTaken s = TypeError s3)"
  show "length (threadPegs s3) \<noteq> 1"
  proof (cases "nbSegments s > P_nbLines P")
    case False
    have l: "length (threadPegs (s\<lparr>targetNbSegments := P_nbLines P\<rparr>)) \<noteq> 1"
      using a by simp
    have "computeNextThreads env P maxMillisecondsTaken s
        = growLoop env maxMillisecondsTaken (env_now env 0) 0 (s\<lparr>targetNbSegments := P_nbLines P\<rparr>)"
      using False by (simp add: computeNextThreads_def Let_def)
    then show ?thesis
      using growLoop_length_not_one [OF l, of env maxMillisecondsTaken "env_now env 0" 0 b s3] a
      by auto
  next
    case True
    show ?thesis
    proof (cases "reset P env s")
      case (Returns v t)
      have l: "length (threadPegs (t\<lparr>targetNbSegments := P_nbLines P\<rparr>)) \<noteq> 1"
        using reset_Returns(1) [OF Returns] by simp
      have "computeNextThreads env P maxMillisecondsTaken s
          = growLoop env maxMillisecondsTaken (env_now env 0) 0 (t\<lparr>targetNbSegments := P_nbLines P\<rparr>)"
        using True Returns by (simp add: computeNextThreads_def Let_def)
      then show ?thesis
        using growLoop_length_not_one [OF l, of env maxMillisecondsTaken "env_now env 0" 0 b s3] a
        by auto
    next
      case (TypeError t)
      then show ?thesis using reset_not_TypeError by blast
    next
      case Hangs
      then have "computeNextThreads env P maxMillisecondsTaken s = Hangs"
        using True by (simp add: computeNextThreads_def Let_def)
      then show ?thesis using a by simp
    qed
  qed
qed

lemma resetHiddenCanvas_grey:
  assumes "sourceImage s = \<lparr>size_width = 512, size_height = 512\<rparr>"
    and "\<not> P_invertColors P"
  shows "resetHiddenCanvas P exampleBrowser s =
     s\<lparr>hiddenCanvas := \<lparr>size_width = 256, size_height = 256\<rparr>,
       hiddenCanvasContext := greyCanvas (256 * 256)\<rparr>"
  using assms
  by (simp add: resetHiddenCanvas_def computeBestSize_square HIDDEN_CANVAS_SIZE_def Let_def
      exampleBrowser_def toUint8Clamped_100 greyCanvas_def)

lemma reset_oneSegmentComputer:
  assumes "P_shape P = RECTANGLE" and "P_pegsSpacing P = 256" and "\<not> P_invertColors P"
  shows "reset P exampleBrowser oneSegmentComputer
           = Returns () (cornersComputer\<lparr>targetNbSegments := P_nbLines P\<rparr>)"
  using assms
  by (simp add: reset_def Let_def computePegs_def oneSegmentComputer_def cornersComputer_def
      rectanglePegs_corners resetHiddenCanvas_grey)

theorem path_length_never_one_witness:
  "newThreadComputer exampleParameters exampleBrowser \<lparr>size_width = 512, size_height = 512\<rparr>
     RECTANGLE 256 = Returns () cornersComputer
   \<and> length (threadPegs cornersComputer) = 0
   \<and> reset exampleParameters exampleBrowser oneSegmentComputer
       = Returns () (cornersComputer\<lparr>targetNbSegments := 1\<rparr>)
   \<and> length (threadPegs (cornersComputer\<lparr>targetNbSegments := 1\<rparr>)) = 0
   \<and> computeThread exampleBrowser 0 cornersComputer =
       Returns () (cornersComputer\<lparr>threadPegs :=
          [Some \<lparr>peg_x = 0, peg_y = 0, peg_angle = None\<rparr>,
           Some \<lparr>peg_x = 255, peg_y = 255, peg_angle = None\<rparr>]\<rparr>)
   \<and> computeNextThreads exampleBrowser exampleParameters 10 cornersComputer =
       Returns True (cornersComputer\<lparr>targetNbSegments := 1, threadPegs :=
          [Some \<lparr>peg_x = 0, peg_y = 0, peg_angle = None\<rparr>,
           Some \<lparr>peg_x = 255, peg_y = 255, peg_angle = None\<rparr>]\<rparr>)
   \<and> length (threadPegs (cornersComputer\<lparr>targetNbSegments := 1, threadPegs :=
          [Some \<lparr>peg_x = 0, peg_y = 0, peg_angle = None\<rparr>,
           Some \<lparr>peg_x = 255, peg_y = 255, peg_angle = None\<rparr>]\<rparr>)) \<noteq> 1"
proof -
  let ?s2 = "cornersComputer\<lparr>threadPegs :=
          [Some \<lparr>peg_x = 0, peg_y = 0, peg_angle = None\<rparr>,
           Some \<lparr>peg_x = 255, peg_y = 255, peg_angle = None\<rparr>]\<rparr>"
  let ?s3 = "cornersComputer\<lparr>targetNbSegments := 1, threadPegs :=
          [Some \<lparr>peg_x = 0, peg_y = 0, peg_angle = None\<rparr>,
           Some \<lparr>peg_x = 255, peg_y = 255, peg_angle = None\<rparr>]\<rparr>"
  have rs: "reset exampleParameters exampleBrowser oneSegmentComputer
       = Returns () (cornersComputer\<lparr>targetNbSegments := 1\<rparr>)"
    using reset_oneSegmentComputer [of exampleParameters] by (simp add: exampleParameters_def)
  have l0: "length (threadPegs cornersComputer) \<noteq> 1" by (simp add: cornersComputer_def)
  note T = path_length_never_one [where P = exampleParameters and env = exampleBrowser
      and img = "\<lparr>size_width = 512, size_height = 512\<rparr>" and sh = RECTANGLE and sp = 256
      and u = "()" and ?s0.0 = cornersComputer and s = cornersComputer and r = 0
      and ?s2.0 = ?s2 and maxMillisecondsTaken = 10 and b = True and ?s3.0 = ?s3]
  have a: "length (threadPegs cornersComputer) = 0"
    using T newThreadComputer_example by blast
  have b: "length (threadPegs ?s3) \<noteq> 1"
    using T l0 computeNextThreads_corners by blast
  have c: "length (threadPegs (cornersComputer\<lparr>targetNbSegments := 1\<rparr>)) = 0"
    using a by simp
  show ?thesis
    using newThreadComputer_example a rs c cornersComputer_step computeNextThreads_corners b
    by (intro conjI)
qed

text \<open>
  Claim C7, as amended. If the segment count equals the configured target
  \<^verbatim>\<open>Parameters.nbLines\<close> when \<^verbatim>\<open>computeNextThreads\<close> is called, the call returns true at once,
  whatever the time budget: it takes no planning step and changes nothing of the object
  (pegs, path, canvas and readback included) but the field \<open>targetNbSegments\<close>, to which it
  assigns the configured target; when that field already holds it, the whole object is
  unchanged.
\<close>

theorem advance_at_target:
  assumes "nbSegments s = P_nbLines P"
  shows "computeNextThreads env P maxMillisecondsTaken s
           = Returns True (s\<lparr>targetNbSegments := P_nbLines P\<rparr>)
     \<and> (targetNbSegments s = P_nbLines P \<longrightarrow>
          computeNextThreads env P maxMillisecondsTaken s = Returns True s)"
proof -
  let ?s = "s\<lparr>targetNbSegments := P_nbLines P\<rparr>"
  have c: "\<not> (nbSegments ?s < targetNbSegments ?s
              \<and> env_now env (0 + 1) - env_now env 0 < maxMillisecondsTaken)"
    using assms by simp
  have "growLoop env maxMillisecondsTaken (env_now env 0) 0 ?s = Returns True ?s"
    using assms by (simp add: growLoop_stop [OF c])
  then have A: "computeNextThreads env P maxMillisecondsTaken s = Returns True ?s"
    using assms by (simp add: computeNextThreads_def Let_def)
  have "targetNbSegments s = P_nbLines P \<longrightarrow> ?s = s" by auto
  then show ?thesis using A by auto
qed

theorem advance_at_target_witness:
  "nbSegments oneSegmentComputer = P_nbLines exampleParameters
   \<and> computeNextThreads exampleBrowser exampleParameters 0 oneSegmentComputer
       = Returns True (oneSegmentComputer\<lparr>targetNbSegments := 1\<rparr>)
   \<and> hiddenCanvasContext (oneSegmentComputer\<lparr>targetNbSegments := 1\<rparr>)
       = hiddenCanvasContext oneSegmentComputer
   \<and> threadPegs (oneSegmentComputer\<lparr>targetNbSegments := 1\<rparr>) = threadPegs oneSegmentComputer"
proof -
  have h: "nbSegments oneSegmentComputer = P_nbLines exampleParameters"
    by (simp add: nbSegments_def oneSegmentComputer_def exampleParameters_def)
  have "P_nbLines exampleParameters = 1" by (simp add: exampleParameters_def)
  then show ?thesis using advance_at_target [OF h, of exampleBrowser 0] h by simp
qed

text \<open>
  The constructor builds a planner; a run of 2 milliseconds towards 3 segments takes one
  step; the target is then lowered to the 1 segment the path has, and the next run changes
  the field \<open>targetNbSegments\<close> from 3 to 1.
\<close>

theorem advance_at_target_counterexample:
  "newThreadComputer exampleParameters exampleBrowser \<lparr>size_width = 512, size_height = 512\<rparr>
     RECTANGLE 256 = Returns () cornersComputer
   \<and> computeNextThreads exampleBrowser (exampleParameters\<lparr>P_nbLines := 3\<rparr>) 2 cornersComputer
       = Returns False oneSegmentComputer
   \<and> nbSegments oneSegmentComputer = P_nbLines exampleParameters
   \<and> computeNextThreads exampleBrowser exampleParameters 10 oneSegmentComputer
       = Returns True (oneSegmentComputer\<lparr>targetNbSegments := 1\<rparr>)
   \<and> targetNbSegments oneSegmentComputer = 3
   \<and> oneSegmentComputer\<lparr>targetNbSegments := 1\<rparr> \<noteq> oneSegmentComputer"
proof -
  have h: "nbSegments oneSegmentComputer = P_nbLines exampleParameters"
    by (simp add: nbSegments_def oneSegmentComputer_def exampleParameters_def)
  have n: "P_nbLines exampleParameters = 1" by (simp add: exampleParameters_def)
  have c: "\<not> (nbSegments (oneSegmentComputer\<lparr>targetNbSegments := 1\<rparr>)
                < targetNbSegments (oneSegmentComputer\<lparr>targetNbSegments := 1\<rparr>)
              \<and> env_now exampleBrowser (0 + 1) - env_now exampleBrowser 0 < 10)"
    using h n by simp
  have g: "growLoop exampleBrowser 10 (env_now exampleBrowser 0) 0
             (oneSegmentComputer\<lparr>targetNbSegments := 1\<rparr>)
           = Returns True (oneSegmentComputer\<lparr>targetNbSegments := 1\<rparr>)"
    by (simp only: growLoop_stop [OF c]) (simp add: nbSegments_def oneSegmentComputer_def)
  have r: "computeNextThreads exampleBrowser exampleParameters 10 oneSegmentComputer
       = Returns True (oneSegmentComputer\<lparr>targetNbSegments := 1\<rparr>)"
    using h n g by (simp add: computeNextThreads_def Let_def)
  have t: "targetNbSegments oneSegmentComputer = 3" by (simp add: oneSegmentComputer_def)
  have "targetNbSegments (oneSegmentComputer\<lparr>targetNbSegments := 1\<rparr>)
      \<noteq> targetNbSegments oneSegmentComputer" using t by simp
  then have d: "oneSegmentComputer\<lparr>targetNbSegments := 1\<rparr> \<noteq> oneSegmentComputer" by metis
  show ?thesis
    using newThreadComputer_example oneSegmentComputer_reached h r t d by (intro conjI)
qed







section \<open>A layout with no candidate\<close>

lemma newThreadComputer_flat:
  "newThreadComputer exampleParameters exampleBrowser \<lparr>size_width = 1024, size_height = 4\<rparr>
     RECTANGLE 256 = Returns () flatComputer"
  by (simp add: newThreadComputer_def Let_def resetHiddenCanvas_def computeBestSize_flat
      HIDDEN_CANVAS_SIZE_def exampleBrowser_def exampleParameters_def toUint8Clamped_100
      greyCanvas_def computePegs_def rectanglePegs_flat flatComputer_def)

lemma flatComputer_start:
  "computeBestStartingThread r (flatComputer\<lparr>targetNbSegments := n\<rparr>)
     = (None, flatComputer\<lparr>targetNbSegments := n\<rparr>)"
  by (simp add: computeBestStartingThread_def flatComputer_def rectangleTooClose_def
      randomItem_def)

lemma flatComputer_step:
  "computeThread env r (flatComputer\<lparr>targetNbSegments := n\<rparr>)
     = TypeError (flatComputer\<lparr>targetNbSegments := n\<rparr>)"
  by (simp add: computeThread_def flatComputer_start) (simp add: flatComputer_def)

lemma flatComputer_next:
  "computeThread env r (flatComputer\<lparr>threadPegs := [Some \<lparr>peg_x = 0, peg_y = 0, peg_angle = None\<rparr>]\<rparr>)
     = TypeError (flatComputer\<lparr>threadPegs :=
         [Some \<lparr>peg_x = 0, peg_y = 0, peg_angle = None\<rparr>, None]\<rparr>)"
  by (simp add: computeThread_def computeBestNextPeg_def flatComputer_def rectangleTooClose_def
      randomItem_def drawThreadOnHiddenCanvas_def Let_def)

text \<open>
  Claim C2 fails on the code. On the planner above no pair of pegs is a candidate. The
  first planning step gets \<^verbatim>\<open>null\<close> from \<^verbatim>\<open>computeBestStartingThread\<close> and throws a
  \<^verbatim>\<open>TypeError\<close> reading \<^verbatim>\<open>startingThread.peg1\<close>, and \<^verbatim>\<open>computeNextThreads\<close> throws with it
  instead of reporting that it cannot grow. A step from a path that already has a peg gets
  \<^verbatim>\<open>null\<close> from \<^verbatim>\<open>computeBestNextPeg\<close>, pushes it onto the path and throws in
  \<^verbatim>\<open>drawThreadOnHiddenCanvas\<close>.
\<close>

theorem no_candidate_throws:
  "newThreadComputer exampleParameters exampleBrowser \<lparr>size_width = 1024, size_height = 4\<rparr>
     RECTANGLE 256 = Returns () flatComputer
   \<and> computeThread exampleBrowser 0 flatComputer = TypeError flatComputer
   \<and> computeNextThreads exampleBrowser exampleParameters 10 flatComputer
       = TypeError (flatComputer\<lparr>targetNbSegments := 1\<rparr>)
   \<and> computeThread exampleBrowser 0
         (flatComputer\<lparr>threadPegs := [Some \<lparr>peg_x = 0, peg_y = 0, peg_angle = None\<rparr>]\<rparr>)
       = TypeError (flatComputer\<lparr>threadPegs :=
           [Some \<lparr>peg_x = 0, peg_y = 0, peg_angle = None\<rparr>, None]\<rparr>)"
proof -
  let ?s0 = "flatComputer\<lparr>targetNbSegments := 1\<rparr>"
  have f: "flatComputer\<lparr>targetNbSegments := 0\<rparr> = flatComputer"
    by (simp add: flatComputer_def)
  have st: "computeThread exampleBrowser 0 flatComputer = TypeError flatComputer"
    using flatComputer_step [of exampleBrowser 0 0] by (simp only: f)
  have n0: "nbSegments flatComputer = 0" by (simp add: nbSegments_def flatComputer_def)
  have c0: "nbSegments ?s0 < targetNbSegments ?s0
      \<and> env_now exampleBrowser (0 + 1) - env_now exampleBrowser 0 < 10"
    by (simp add: n0 exampleBrowser_def)
  have "growLoop exampleBrowser 10 (env_now exampleBrowser 0) 0 ?s0 = TypeError ?s0"
    by (simp only: growLoop_step [OF c0] flatComputer_step outcome.case)
  then have adv: "computeNextThreads exampleBrowser exampleParameters 10 flatComputer
       = TypeError ?s0"
    by (simp add: computeNextThreads_def Let_def n0 exampleParameters_def)
  show ?thesis using newThreadComputer_flat st adv flatComputer_next by (intro conjI)
qed

end
